theory Spec2Isabelle
  imports Main "HOL-Library.AList"
begin

section \<open>JavaScript values\<close>

text \<open>
  A JavaScript reference that may be \<^verbatim>\<open>undefined\<close>, \<^verbatim>\<open>null\<close> or an object. The two
  empty values are kept apart because \<^verbatim>\<open>startLabeling\<close> tests \<^verbatim>\<open>annotation !== undefined\<close>.
\<close>

datatype 'a nullable = Undefined | Null | Obj 'a

text \<open>\<^verbatim>\<open>!!v\<close> for a reference: objects are truthy, \<^verbatim>\<open>undefined\<close> and \<^verbatim>\<open>null\<close> are not.\<close>

fun truthy :: "'a nullable \<Rightarrow> bool" where
  "truthy (Obj _) = True"
| "truthy _ = False"

text \<open>
  \<^verbatim>\<open>data[index]\<close> on an array of records: the element inside the array, \<^verbatim>\<open>undefined\<close>
  past its end (JavaScript does not raise on an out-of-range read).
\<close>

definition js_index :: "'a list \<Rightarrow> nat \<Rightarrow> 'a nullable" where
  "js_index data index = (if index < length data then Obj (data ! index) else Undefined)"

section \<open>The table controller of \<^verbatim>\<open>DataView\<close> (Table.js)\<close>

text \<open>
  The two fields of \<^verbatim>\<open>view.dataStore\<close> that \<^verbatim>\<open>loadMore\<close> and \<^verbatim>\<open>isItemLoaded\<close> read.
\<close>

record data_store =
  hasNextPage :: bool
  loading :: bool

text \<open>
  The store's \<^verbatim>\<open>fetch\<close> is a collaborator outside the component; a call to it is recorded
  with the \<^verbatim>\<open>interaction\<close> of its argument.
\<close>

datatype store_call = Fetch string

text \<open>
  \<^verbatim>\<open>
  const loadMore = React.useCallback(() => {
    if (!view.dataStore.hasNextPage && view.dataStore.loading) return;
    view.dataStore.fetch({ interaction: "scroll" });
  }, [view.dataStore]);
  \<close>
  The result is the list of calls made on the store, in order.
\<close>

definition loadMore :: "data_store \<Rightarrow> store_call list" where
  "loadMore dataStore =
     (if \<not> hasNextPage dataStore \<and> loading dataStore then []
      else [Fetch ''scroll''])"

text \<open>
  \<^verbatim>\<open>
  const isItemLoaded = React.useCallback((data, index) => {
    const rowExists = !!data[index];
    const hasNextPage = view.dataStore.hasNextPage;
    return !hasNextPage || rowExists;
  }, [view.dataStore.hasNextPage]);
  \<close>
  The body assigns nothing and calls nothing, so the model returns the boolean only.
\<close>

definition isItemLoaded :: "data_store \<Rightarrow> 'r list \<Rightarrow> nat \<Rightarrow> bool" where
  "isItemLoaded dataStore data index =
     (let rowExists = truthy (js_index data index);
          hasNextPage' = hasNextPage dataStore
      in \<not> hasNextPage' \<or> rowExists)"

section \<open>The Data Manager (class \<^verbatim>\<open>DataManager\<close>)\<close>

subsection \<open>Values that cross the interface\<close>

text \<open>
  What a \<^verbatim>\<open>throw\<close> carries: \<^verbatim>\<open>new Error(message)\<close>, or the \<^verbatim>\<open>TypeError\<close> that JavaScript
  raises when a property of \<^verbatim>\<open>null\<close> or \<^verbatim>\<open>undefined\<close> is read.
\<close>

datatype error = Error string | TypeError

text \<open>
  An argument handed to an event handler: the mode string of \<^verbatim>\<open>modeChanged\<close>, or the
  Data Manager itself (\<^verbatim>\<open>[this]\<close> of \<^verbatim>\<open>ready\<close>).
\<close>

datatype arg = Str string | This

text \<open>
  A host function registered as an event handler or as the callback of an action. It is
  host code: the model knows its identity (a JavaScript \<^verbatim>\<open>Set\<close> compares functions by
  reference) and whether a call with given arguments returns (\<open>None\<close>) or throws. What
  else the function does is its own business; a handler that calls methods of the Data
  Manager while it is being run by \<^verbatim>\<open>invoke\<close> is not covered.
\<close>

datatype callback = Callback (cb_id: nat) (cb_run: "arg list \<Rightarrow> error option")

record annotation =
  annotation_id :: nat

record task =
  task_id :: nat
  lastAnnotation :: "annotation nullable"

text \<open>
  The application store built by \<^verbatim>\<open>createApp\<close>, as far as the Data Manager reads it:
  \<^verbatim>\<open>store.taskStore.selected\<close>, \<^verbatim>\<open>store.annotationStore.selected\<close>, and whether it has
  a \<^verbatim>\<open>destroy\<close> method (\<^verbatim>\<open>this.store.destroy?.()\<close>).
\<close>

record app_store =
  taskStore_selected :: "task nullable"
  annotationStore_selected :: "annotation nullable"
  has_destroy :: bool

text \<open>The embedded editor wrapper, as far as it is read: \<^verbatim>\<open>this.lsf.task\<close>.\<close>

record lsf_wrapper =
  lsf_task :: "task nullable"

text \<open>An action; \<^verbatim>\<open>id\<close> is \<open>None\<close> when the property is \<^verbatim>\<open>undefined\<close>.\<close>

record action =
  action_id :: "string option"
  action_title :: string

text \<open>\<^verbatim>\<open>!id\<close> is false exactly for a non-empty string.\<close>

definition truthy_id :: "string option \<Rightarrow> bool" where
  "truthy_id i = (case i of None \<Rightarrow> False | Some s \<Rightarrow> s \<noteq> [])"

datatype binding_helper = Observer | Inject

text \<open>The object handed to the initializer of an instrument.\<close>

record collaborators =
  collab_store :: "app_store nullable"
  collab_observer :: binding_helper
  collab_inject :: binding_helper

datatype instrument = Instrument nat

datatype initializer =
  Initializer (init_id: nat) (init_run: "collaborators \<Rightarrow> error + instrument")

text \<open>
  Calls that leave the class (the store, the editor, the console, React, host functions),
  in the order they are made. \<open>Invoked\<close> marks an entry into \<^verbatim>\<open>invoke\<close>: one event fired.
  The methods of the store and of the editor, \<^verbatim>\<open>unmountComponentAtNode\<close> and the console are
  taken to return; only host functions (handlers and initializers) may throw.
\<close>

datatype effect =
    Invoked string "arg list"
  | Applied callback "arg list"
  | StoreAddActions action
  | StoreRemoveAction string
  | StoreSetMode string
  | StoreUpdateInstruments
  | StoreDestroy
  | UnmountComponentAtNode
  | CreateApp
  | Initialized initializer collaborators
  | ConsoleWarn string
  | ConsoleLog string
  | NewLSFWrapper "task nullable" "annotation nullable" bool
  | LsfLoadTask nat "nat option"
  | LsfDestroy

subsection \<open>The object\<close>

text \<open>
  \<^verbatim>\<open>callbacks\<close> is a \<^verbatim>\<open>Map<String, Set<Function>>\<close>. A \<^verbatim>\<open>Set\<close> is a mutable object and the map
  holds references to it, so the sets live in a store of their own, \<open>set_objects\<close>, and the
  map holds indices into it. A JavaScript \<^verbatim>\<open>Map\<close> and a \<^verbatim>\<open>Set\<close> iterate in insertion order:
  the map is an association list, a set is a list without repetition.
\<close>

record data_manager =
  store :: "app_store nullable"
  lsf :: "lsf_wrapper nullable"
  mode :: string
  callbacks :: "(string \<times> nat) list"
  set_objects :: "callback list list"
  actions :: "(string \<times> action \<times> callback) list"
  instruments :: "(string \<times> instrument) list"
  trace :: "effect list"

definition record_effect :: "effect \<Rightarrow> data_manager \<Rightarrow> data_manager" where
  "record_effect e dm = dm\<lparr>trace := trace dm @ [e]\<rparr>"

text \<open>\<^verbatim>\<open>new Set()\<close>: a fresh, empty set object.\<close>

definition new_Set :: "data_manager \<Rightarrow> nat \<times> data_manager" where
  "new_Set dm = (length (set_objects dm), dm\<lparr>set_objects := set_objects dm @ [[]]\<rparr>)"

text \<open>
  \<^verbatim>\<open>Set.prototype.add\<close> and \<^verbatim>\<open>delete\<close> on the contents of a set of functions. Membership
  is by reference, that is, by the identity of the function.
\<close>

definition Set_add :: "callback list \<Rightarrow> callback \<Rightarrow> callback list" where
  "Set_add s x = (if cb_id x \<in> cb_id ` set s then s else s @ [x])"

definition Set_delete :: "callback list \<Rightarrow> callback \<Rightarrow> callback list" where
  "Set_delete s x = filter (\<lambda>y. cb_id y \<noteq> cb_id x) s"

text \<open>
  The set object behind a reference is overwritten in place. A reference in use is one
  the map holds or one that \<^verbatim>\<open>new Set()\<close> has just returned, so it lies inside
  \<open>set_objects\<close> (see \<open>well_formed\<close> below).
\<close>

definition update_Set :: "nat \<Rightarrow> (callback list \<Rightarrow> callback list) \<Rightarrow> data_manager \<Rightarrow> data_manager" where
  "update_Set r f dm = dm\<lparr>set_objects := (set_objects dm)[r := f (set_objects dm ! r)]\<rparr>"

subsection \<open>Construction\<close>

record dm_config =
  config_mode :: "string option"
  config_instruments :: "(string \<times> (binding_helper \<times> binding_helper \<Rightarrow> instrument)) list"

text \<open>
  \<^verbatim>\<open>
  const prepareInstruments = (instruments) => {
    const result = Object.fromEntries(Object.entries(instruments).map(([name, builder]) => {
      return [name, builder({inject, observer})];
    }));
    return objectToMap(result);
  };
  \<close>
\<close>

definition prepareInstruments ::
  "(string \<times> (binding_helper \<times> binding_helper \<Rightarrow> instrument)) list \<Rightarrow> (string \<times> instrument) list" where
  "prepareInstruments instruments' = map (\<lambda>(name, builder). (name, builder (Inject, Observer))) instruments'"

text \<open>
  \<^verbatim>\<open>async initApp() { this.store = await createApp(this.root, this); this.invoke('ready', [this]); }\<close>
  runs in two steps. The call itself reaches \<^verbatim>\<open>createApp\<close> and suspends at the \<^verbatim>\<open>await\<close>.
\<close>

definition initApp :: "data_manager \<Rightarrow> data_manager" where
  "initApp dm = record_effect CreateApp dm"

text \<open>
  The constructor, for the fields modelled here: \<^verbatim>\<open>this.mode = config.mode ?? this.mode\<close>
  over the default \<^verbatim>\<open>"explorer"\<close>, the prepared instruments, empty maps, \<^verbatim>\<open>store\<close> and
  \<^verbatim>\<open>lsf\<close> still \<^verbatim>\<open>null\<close>, and the final \<^verbatim>\<open>this.initApp()\<close>.
\<close>

definition new_DataManager :: "dm_config \<Rightarrow> data_manager" where
  "new_DataManager config =
     initApp \<lparr>store = Null, lsf = Null,
       mode = (case config_mode config of Some m \<Rightarrow> m | None \<Rightarrow> ''explorer''),
       callbacks = [], set_objects = [], actions = [],
       instruments = prepareInstruments (config_instruments config),
       trace = []\<rparr>"

subsection \<open>Event bus\<close>

text \<open>
  \<^verbatim>\<open>getEventCallbacks(eventName) { return this.callbacks.get(eventName) ?? new Set(); }\<close>
  The result is a reference; for a name without an entry it is a fresh set that the map
  does not hold.
\<close>

definition getEventCallbacks :: "data_manager \<Rightarrow> string \<Rightarrow> nat \<times> data_manager" where
  "getEventCallbacks dm eventName =
     (case map_of (callbacks dm) eventName of
        Some events \<Rightarrow> (events, dm)
      | None \<Rightarrow> new_Set dm)"

text \<open>
  \<^verbatim>\<open>
  on(eventName, callback) {
    const events = this.getEventCallbacks(eventName);
    events.add(callback);
    this.callbacks.set(eventName, events);
  }
  \<close>
\<close>

definition on :: "data_manager \<Rightarrow> string \<Rightarrow> callback \<Rightarrow> data_manager" where
  "on dm eventName callback =
     (let (events, dm1) = getEventCallbacks dm eventName;
          dm2 = update_Set events (\<lambda>s. Set_add s callback) dm1
      in dm2\<lparr>callbacks := AList.update eventName events (callbacks dm2)\<rparr>)"

text \<open>
  \<^verbatim>\<open>
  off(eventName, callback) {
    const events = this.getEventCallbacks(eventName);
    if (callback) { events.delete(callback); } else { events.clear(); }
  }
  \<close>
  The second argument is \<open>None\<close> when the caller leaves it out.
\<close>

definition off :: "data_manager \<Rightarrow> string \<Rightarrow> callback option \<Rightarrow> data_manager" where
  "off dm eventName callback =
     (let (events, dm1) = getEventCallbacks dm eventName
      in case callback of
           Some cb \<Rightarrow> update_Set events (\<lambda>s. Set_delete s cb) dm1
         | None \<Rightarrow> update_Set events (\<lambda>s. []) dm1)"

text \<open>
  \<^verbatim>\<open>hasHandler(eventName) { return this.getEventCallbacks(eventName).size > 0; }\<close>
\<close>

definition hasHandler :: "data_manager \<Rightarrow> string \<Rightarrow> bool" where
  "hasHandler dm eventName =
     (let (events, dm1) = getEventCallbacks dm eventName
      in length (set_objects dm1 ! events) > 0)"

text \<open>
  \<^verbatim>\<open>forEach((callback) => callback.apply(this, args))\<close> over the contents of a set: an
  exception thrown by a handler leaves the loop.
\<close>

fun forEach_apply :: "callback list \<Rightarrow> arg list \<Rightarrow> data_manager \<Rightarrow> error option \<times> data_manager" where
  "forEach_apply [] args dm = (None, dm)"
| "forEach_apply (callback # rest) args dm =
     (let dm1 = record_effect (Applied callback args) dm
      in case cb_run callback args of
           Some e \<Rightarrow> (Some e, dm1)
         | None \<Rightarrow> forEach_apply rest args dm1)"

text \<open>
  \<^verbatim>\<open>
  async invoke(eventName, args) {
    this.getEventCallbacks(eventName).forEach((callback) => callback.apply(this, args));
  }
  \<close>
  The body has no \<^verbatim>\<open>await\<close>, so it runs to its end inside the call. The first component
  is the state of the promise returned: \<open>None\<close> fulfilled, \<open>Some e\<close> rejected with \<open>e\<close>.
\<close>

definition invoke :: "data_manager \<Rightarrow> string \<Rightarrow> arg list \<Rightarrow> error option \<times> data_manager" where
  "invoke dm eventName args =
     (let (events, dm1) = getEventCallbacks (record_effect (Invoked eventName args) dm) eventName
      in forEach_apply (set_objects dm1 ! events) args dm1)"

text \<open>
  The second step of \<^verbatim>\<open>initApp\<close>, when the promise of \<^verbatim>\<open>createApp\<close> is fulfilled with a
  store: the assignment and the \<^verbatim>\<open>ready\<close> event. The promise of \<^verbatim>\<open>invoke\<close> is not awaited.
\<close>

definition initApp_resume :: "data_manager \<Rightarrow> app_store \<Rightarrow> data_manager" where
  "initApp_resume dm s = snd (invoke (dm\<lparr>store := Obj s\<rparr>) ''ready'' [This])"

subsection \<open>Actions and instruments\<close>

text \<open>
  \<^verbatim>\<open>
  addAction(action, callback) {
    const {id} = action;
    if (!id) throw new Error("Action must provide a unique ID");
    this.actions.set(id, {action, callback});
    this.store.addActions(action);
  }
  \<close>
  The first component is the exception thrown, if any; the second is the object as the
  call leaves it, also when it throws.
\<close>

definition addAction :: "data_manager \<Rightarrow> action \<Rightarrow> callback \<Rightarrow> error option \<times> data_manager" where
  "addAction dm action' callback =
     (case action_id action' of
        None \<Rightarrow> (Some (Error ''Action must provide a unique ID''), dm)
      | Some id' \<Rightarrow>
          if id' = [] then (Some (Error ''Action must provide a unique ID''), dm)
          else
            let dm1 = dm\<lparr>actions := AList.update id' (action', callback) (actions dm)\<rparr>
            in (case store dm1 of
                  Obj s \<Rightarrow> (None, record_effect (StoreAddActions action') dm1)
                | _ \<Rightarrow> (Some TypeError, dm1)))"

text \<open>
  \<^verbatim>\<open>removeAction(id) { this.actions.delete(id); this.store.removeAction(id); }\<close>
\<close>

definition removeAction :: "data_manager \<Rightarrow> string \<Rightarrow> error option \<times> data_manager" where
  "removeAction dm id' =
     (let dm1 = dm\<lparr>actions := AList.delete id' (actions dm)\<rparr>
      in case store dm1 of
           Obj s \<Rightarrow> (None, record_effect (StoreRemoveAction id') dm1)
         | _ \<Rightarrow> (Some TypeError, dm1))"

text \<open>\<^verbatim>\<open>getAction(id) { return this.actions.get(id)?.callback; }\<close>\<close>

definition getAction :: "data_manager \<Rightarrow> string \<Rightarrow> callback option" where
  "getAction dm id' = (case map_of (actions dm) id' of None \<Rightarrow> None | Some (action', callback) \<Rightarrow> Some callback)"

text \<open>
  \<^verbatim>\<open>
  installActions() {
    this.actions.forEach(({action, callback}) => { this.addAction(action, callback); });
  }
  \<close>
  The loop runs over the entries the map has on entry. Each call sets the key
  \<^verbatim>\<open>action.id\<close>, under which the entry was stored, so no key is added while iterating.
\<close>

fun forEach_addAction ::
  "(string \<times> action \<times> callback) list \<Rightarrow> data_manager \<Rightarrow> error option \<times> data_manager" where
  "forEach_addAction [] dm = (None, dm)"
| "forEach_addAction ((key, action', callback) # rest) dm =
     (case addAction dm action' callback of
        (Some e, dm1) \<Rightarrow> (Some e, dm1)
      | (None, dm1) \<Rightarrow> forEach_addAction rest dm1)"

definition installActions :: "data_manager \<Rightarrow> error option \<times> data_manager" where
  "installActions dm = forEach_addAction (actions dm) dm"

text \<open>
  \<^verbatim>\<open>
  registerInstrument(name, initializer) {
    if (instruments[name]) {
      return console.warn(`Can't override native instrument ${name}`);
    }
    this.instruments.set(name, initializer({store: this.store, observer: observer, inject: inject}));
    this.store.updateInstruments();
  }
  \<close>
  \<^verbatim>\<open>instruments\<close> is the table of built-in instruments imported from the toolbar; it is a
  parameter, \<open>native name\<close> being \<^verbatim>\<open>instruments[name]\<close> (\<open>None\<close> when undefined).
\<close>

definition registerInstrument ::
  "(string \<Rightarrow> 'b option) \<Rightarrow> data_manager \<Rightarrow> string \<Rightarrow> initializer \<Rightarrow> error option \<times> data_manager" where
  "registerInstrument native dm name initializer' =
     (if native name \<noteq> None
      then (None, record_effect (ConsoleWarn (''Can't override native instrument '' @ name)) dm)
      else
        let collab = \<lparr>collab_store = store dm, collab_observer = Observer, collab_inject = Inject\<rparr>;
            dm1 = record_effect (Initialized initializer' collab) dm
        in case init_run initializer' collab of
             Inl e \<Rightarrow> (Some e, dm1)
           | Inr instance' \<Rightarrow>
               let dm2 = dm1\<lparr>instruments := AList.update name instance' (instruments dm1)\<rparr>
               in (case store dm2 of
                     Obj s \<Rightarrow> (None, record_effect StoreUpdateInstruments dm2)
                   | _ \<Rightarrow> (Some TypeError, dm2)))"

subsection \<open>Mode and editor\<close>

text \<open>
  \<^verbatim>\<open>
  async setMode(mode) {
    const modeChanged = mode !== this.mode;
    this.mode = mode;
    this.store.setMode(mode);
    if (modeChanged) this.invoke('modeChanged', [this.mode]);
  }
  \<close>
  The promise of \<^verbatim>\<open>invoke\<close> is not awaited: its rejection does not reach the promise of
  \<^verbatim>\<open>setMode\<close>.
\<close>

definition setMode :: "data_manager \<Rightarrow> string \<Rightarrow> error option \<times> data_manager" where
  "setMode dm mode' =
     (let modeChanged = (mode' \<noteq> mode dm);
          dm1 = dm\<lparr>mode := mode'\<rparr>
      in case store dm1 of
           Obj s \<Rightarrow>
             let dm2 = record_effect (StoreSetMode mode') dm1
             in if modeChanged then (None, snd (invoke dm2 ''modeChanged'' [Str (mode dm2)]))
                else (None, dm2)
         | _ \<Rightarrow> (Some TypeError, dm1))"

text \<open>\<^verbatim>\<open>x?.id\<close>: the id of an object, \<^verbatim>\<open>undefined\<close> for \<^verbatim>\<open>null\<close> and \<^verbatim>\<open>undefined\<close>.\<close>

definition opt_task_id :: "task nullable \<Rightarrow> nat option" where
  "opt_task_id t = (case t of Obj t' \<Rightarrow> Some (task_id t') | _ \<Rightarrow> None)"

definition opt_annotation_id :: "annotation nullable \<Rightarrow> nat option" where
  "opt_annotation_id a = (case a of Obj a' \<Rightarrow> Some (annotation_id a') | _ \<Rightarrow> None)"

text \<open>
  \<^verbatim>\<open>
  initLSF(element) {
    const task = this.store.taskStore.selected;
    const annotation = this.store.annotationStore.selected;
    const isLabelStream = this.mode === 'labelstream';
    if (!this.lsf) {
      console.log("Initialize LSF");
      this.lsf = new LSFWrapper(this, element, {...this.labelStudioOptions, task, annotation, isLabelStream});
    }
  }
  \<close>
  The wrapper that the constructor returns is a parameter.
\<close>

definition initLSF :: "data_manager \<Rightarrow> lsf_wrapper \<Rightarrow> error option \<times> data_manager" where
  "initLSF dm wrapper =
     (case store dm of
        Obj s \<Rightarrow>
          let task' = taskStore_selected s;
              annotation' = annotationStore_selected s;
              isLabelStream = (mode dm = ''labelstream'')
          in if \<not> truthy (lsf dm)
             then (None, (record_effect (NewLSFWrapper task' annotation' isLabelStream)
                           (record_effect (ConsoleLog ''Initialize LSF'') dm))\<lparr>lsf := Obj wrapper\<rparr>)
             else (None, dm)
      | _ \<Rightarrow> (Some TypeError, dm))"

text \<open>
  \<^verbatim>\<open>
  async startLabeling() {
    let [task, annotation] = [this.store.taskStore.selected, this.store.annotationStore.selected];
    const isLabelStream = this.mode === 'labelstream';
    // do nothing if the task is already selected
    if (this.lsf?.task && task && this.lsf.task.id === task.id) { return; }
    if (!isLabelStream && this.lsf &&
        (this.lsf.task?.id !== task?.id || annotation !== undefined)) {
      const annotationID = annotation?.id ?? task.lastAnnotation?.id;
      this.lsf.loadTask(task.id, annotationID);
    }
  }
  \<close>
  Reading \<^verbatim>\<open>task.lastAnnotation\<close> or \<^verbatim>\<open>task.id\<close> when no task is selected raises a TypeError.
\<close>

definition lsf_task_of :: "lsf_wrapper nullable \<Rightarrow> task nullable" where
  "lsf_task_of l = (case l of Obj w \<Rightarrow> lsf_task w | _ \<Rightarrow> Undefined)"

definition startLabeling :: "data_manager \<Rightarrow> error option \<times> data_manager" where
  "startLabeling dm =
     (case store dm of
        Obj s \<Rightarrow>
          let task' = taskStore_selected s;
              annotation' = annotationStore_selected s;
              isLabelStream = (mode dm = ''labelstream'')
          in if truthy (lsf_task_of (lsf dm)) \<and> truthy task'
                \<and> opt_task_id (lsf_task_of (lsf dm)) = opt_task_id task'
             then (None, dm)
             else if \<not> isLabelStream \<and> truthy (lsf dm)
                     \<and> (opt_task_id (lsf_task_of (lsf dm)) \<noteq> opt_task_id task' \<or> annotation' \<noteq> Undefined)
             then (case task' of
                     Obj t \<Rightarrow>
                       let annotationID =
                             (case opt_annotation_id annotation' of
                                Some i \<Rightarrow> Some i
                              | None \<Rightarrow> opt_annotation_id (lastAnnotation t))
                       in (None, record_effect (LsfLoadTask (task_id t) annotationID) dm)
                   | _ \<Rightarrow> (Some TypeError, dm))
             else (None, dm)
      | _ \<Rightarrow> (Some TypeError, dm))"

text \<open>\<^verbatim>\<open>destroyLSF() { this.lsf?.destroy(); this.lsf = undefined; }\<close>\<close>

definition destroyLSF :: "data_manager \<Rightarrow> data_manager" where
  "destroyLSF dm =
     (if truthy (lsf dm) then record_effect LsfDestroy dm else dm)\<lparr>lsf := Undefined\<rparr>"

subsection \<open>Tear-down and reload\<close>

text \<open>
  \<^verbatim>\<open>
  destroy(detachCallbacks = true) {
    if (this.store) this.store.destroy?.();
    unmountComponentAtNode(this.root);
    if (detachCallbacks) {
      this.callbacks.forEach((callbacks) => callbacks.clear());
      this.callbacks.clear();
    }
  }
  \<close>
\<close>

definition destroy :: "data_manager \<Rightarrow> bool \<Rightarrow> data_manager" where
  "destroy dm detachCallbacks =
     (let dm1 = (case store dm of
                   Obj s \<Rightarrow> if has_destroy s then record_effect StoreDestroy dm else dm
                 | _ \<Rightarrow> dm);
          dm2 = record_effect UnmountComponentAtNode dm1
      in if detachCallbacks
         then (fold (\<lambda>(name, events). update_Set events (\<lambda>s. [])) (callbacks dm2) dm2)\<lparr>callbacks := []\<rparr>
         else dm2)"

text \<open>
  \<^verbatim>\<open>reload() { this.destroy(false); this.initApp(); this.installActions(); }\<close>
  \<^verbatim>\<open>initApp\<close> suspends at its \<^verbatim>\<open>await\<close>, so \<^verbatim>\<open>installActions\<close> runs before the new store is
  assigned.
\<close>

definition reload :: "data_manager \<Rightarrow> error option \<times> data_manager" where
  "reload dm = installActions (initApp (destroy dm False))"

subsection \<open>Host programs\<close>

text \<open>
  What can happen to a Data Manager: a call of one of its methods by the host, or the
  fulfilment of a pending \<^verbatim>\<open>createApp\<close> promise with a store. A host that catches an
  exception goes on with the object as the failed call left it.
\<close>

datatype command =
    CallOn string callback
  | CallOff string "callback option"
  | CallInvoke string "arg list"
  | CallSetMode string
  | CallAddAction action callback
  | CallRemoveAction string
  | CallInstallActions
  | CallRegisterInstrument string initializer
  | CallInitLSF lsf_wrapper
  | CallStartLabeling
  | CallDestroyLSF
  | CallDestroy bool
  | CallReload
  | CreateAppFulfilled app_store

fun step :: "(string \<Rightarrow> 'b option) \<Rightarrow> data_manager \<Rightarrow> command \<Rightarrow> data_manager" where
  "step native dm (CallOn name cb) = on dm name cb"
| "step native dm (CallOff name cb) = off dm name cb"
| "step native dm (CallInvoke name args) = snd (invoke dm name args)"
| "step native dm (CallSetMode m) = snd (setMode dm m)"
| "step native dm (CallAddAction a cb) = snd (addAction dm a cb)"
| "step native dm (CallRemoveAction i) = snd (removeAction dm i)"
| "step native dm CallInstallActions = snd (installActions dm)"
| "step native dm (CallRegisterInstrument name i) = snd (registerInstrument native dm name i)"
| "step native dm (CallInitLSF w) = snd (initLSF dm w)"
| "step native dm CallStartLabeling = snd (startLabeling dm)"
| "step native dm CallDestroyLSF = destroyLSF dm"
| "step native dm (CallDestroy detach) = destroy dm detach"
| "step native dm CallReload = snd (reload dm)"
| "step native dm (CreateAppFulfilled s) = initApp_resume dm s"

definition run :: "(string \<Rightarrow> 'b option) \<Rightarrow> data_manager \<Rightarrow> command list \<Rightarrow> data_manager" where
  "run native dm cs = foldl (step native) dm cs"

text \<open>The command is a call \<^verbatim>\<open>on(name, ...)\<close>.\<close>

fun is_on :: "string \<Rightarrow> command \<Rightarrow> bool" where
  "is_on name (CallOn name' cb) = (name' = name)"
| "is_on name _ = False"

subsection \<open>Observations\<close>

text \<open>The handlers registered for a name, in the order of the set stored for it.\<close>

definition subscribers :: "data_manager \<Rightarrow> string \<Rightarrow> callback list" where
  "subscribers dm name =
     (case map_of (callbacks dm) name of None \<Rightarrow> [] | Some events \<Rightarrow> set_objects dm ! events)"

text \<open>The subscription map read through its references: event name to contents of its set.\<close>

definition subscription_map :: "data_manager \<Rightarrow> string \<Rightarrow> callback list option" where
  "subscription_map dm name = map_option (\<lambda>events. set_objects dm ! events) (map_of (callbacks dm) name)"

text \<open>The effects that a step from \<open>dm\<close> to \<open>dm'\<close> appended to the trace.\<close>

definition effects_since :: "data_manager \<Rightarrow> data_manager \<Rightarrow> effect list" where
  "effects_since dm dm' = drop (length (trace dm)) (trace dm')"

fun fired :: "effect \<Rightarrow> (string \<times> arg list) option" where
  "fired (Invoked name args) = Some (name, args)"
| "fired _ = None"

fun applied :: "effect \<Rightarrow> (callback \<times> arg list) option" where
  "applied (Applied cb args) = Some (cb, args)"
| "applied _ = None"

fun initialized :: "effect \<Rightarrow> (initializer \<times> collaborators) option" where
  "initialized (Initialized i c) = Some (i, c)"
| "initialized _ = None"

fun added :: "effect \<Rightarrow> action option" where
  "added (StoreAddActions a) = Some a"
| "added _ = None"

text \<open>Events fired, handler calls made, between two states.\<close>

definition events_fired :: "data_manager \<Rightarrow> data_manager \<Rightarrow> (string \<times> arg list) list" where
  "events_fired dm dm' = List.map_filter fired (effects_since dm dm')"

definition deliveries :: "data_manager \<Rightarrow> data_manager \<Rightarrow> (callback \<times> arg list) list" where
  "deliveries dm dm' = List.map_filter applied (effects_since dm dm')"

text \<open>
  The handlers of a list that a \<^verbatim>\<open>forEach\<close> reaches: those before the first one that
  throws on the arguments, and that one.
\<close>

definition until_throw :: "callback list \<Rightarrow> arg list \<Rightarrow> callback list" where
  "until_throw hs args =
     takeWhile (\<lambda>cb. cb_run cb args = None) hs @ take 1 (dropWhile (\<lambda>cb. cb_run cb args = None) hs)"

text \<open>The exception that leaves the loop: that of the first handler that throws.\<close>

definition first_throw :: "callback list \<Rightarrow> arg list \<Rightarrow> error option" where
  "first_throw hs args =
     (case dropWhile (\<lambda>cb. cb_run cb args = None) hs of [] \<Rightarrow> None | cb # _ \<Rightarrow> cb_run cb args)"

text \<open>
  What holds of every Data Manager that a host program can reach: the subscription map
  refers to existing set objects, the keys of the action registry are distinct, and an
  action is stored under its own, non-empty id.
\<close>

definition well_formed :: "data_manager \<Rightarrow> bool" where
  "well_formed dm \<longleftrightarrow>
     (\<forall>(name, events) \<in> set (callbacks dm). events < length (set_objects dm))
     \<and> distinct (map fst (actions dm))
     \<and> (\<forall>(key, action', callback) \<in> set (actions dm). action_id action' = Some key \<and> key \<noteq> [])"

subsection \<open>Examples\<close>

definition failing_handler :: callback where
  "failing_handler = Callback 1 (\<lambda>args. Some (Error ''handler failed''))"

definition quiet_handler :: callback where
  "quiet_handler = Callback 2 (\<lambda>args. None)"

definition example_task :: task where
  "example_task = \<lparr>task_id = 7, lastAnnotation = Obj \<lparr>annotation_id = 70\<rparr>\<rparr>"

definition example_store :: app_store where
  "example_store =
     \<lparr>taskStore_selected = Obj example_task, annotationStore_selected = Undefined, has_destroy = True\<rparr>"

definition fresh_manager :: data_manager where
  "fresh_manager = new_DataManager \<lparr>config_mode = None, config_instruments = []\<rparr>"

text \<open>Two handlers for \<^verbatim>\<open>ready\<close>; the one registered first throws.\<close>

definition two_handlers :: data_manager where
  "two_handlers = on (on fresh_manager ''ready'' failing_handler) ''ready'' quiet_handler"

definition second_quiet_handler :: callback where
  "second_quiet_handler = Callback 3 (\<lambda>args. None)"

definition two_quiet_handlers :: data_manager where
  "two_quiet_handlers = on (on fresh_manager ''ready'' quiet_handler) ''ready'' second_quiet_handler"

text \<open>A Data Manager whose application store has arrived.\<close>

definition ready_manager :: data_manager where
  "ready_manager = initApp_resume fresh_manager example_store"

definition first_action :: action where
  "first_action = \<lparr>action_id = Some ''export'', action_title = ''Export''\<rparr>"

definition second_action :: action where
  "second_action = \<lparr>action_id = Some ''export'', action_title = ''Export again''\<rparr>"

definition anonymous_action :: action where
  "anonymous_action = \<lparr>action_id = None, action_title = ''No id''\<rparr>"

definition registered_manager :: data_manager where
  "registered_manager = snd (addAction ready_manager first_action failing_handler)"

text \<open>A table of built-in instruments with three entries, and an initializer.\<close>

definition example_native :: "string \<Rightarrow> unit option" where
  "example_native = map_of [(''columns'', ()), (''filters'', ()), (''ordering'', ())]"

definition example_initializer :: initializer where
  "example_initializer = Initializer 1 (\<lambda>collab. Inr (Instrument 5))"

text \<open>The editor holds the selected task; the editor holds another task.\<close>

definition editor_same_task :: data_manager where
  "editor_same_task = ready_manager\<lparr>lsf := Obj \<lparr>lsf_task = Obj example_task\<rparr>\<rparr>"

definition editor_other_task :: data_manager where
  "editor_other_task =
     ready_manager\<lparr>lsf := Obj \<lparr>lsf_task = Obj \<lparr>task_id = 3, lastAnnotation = Undefined\<rparr>\<rparr>\<rparr>"

text \<open>The same, with an annotation selected in the store.\<close>

definition annotated_store :: app_store where
  "annotated_store = example_store\<lparr>annotationStore_selected := Obj \<lparr>annotation_id = 99\<rparr>\<rparr>"

definition editor_other_task_annotated :: data_manager where
  "editor_other_task_annotated =
     (initApp_resume fresh_manager annotated_store)
       \<lparr>lsf := Obj \<lparr>lsf_task = Obj \<lparr>task_id = 3, lastAnnotation = Undefined\<rparr>\<rparr>\<rparr>"

text \<open>
  No task is selected in the store, while the editor still holds task 3; and an editor
  that holds no task, once with an annotation selected and once with nothing selected.
\<close>

definition unselected_store :: app_store where
  "unselected_store =
     \<lparr>taskStore_selected = Undefined, annotationStore_selected = Undefined, has_destroy = True\<rparr>"

definition annotation_only_store :: app_store where
  "annotation_only_store = unselected_store\<lparr>annotationStore_selected := Obj \<lparr>annotation_id = 99\<rparr>\<rparr>"

definition editor_task_nothing_selected :: data_manager where
  "editor_task_nothing_selected =
     (initApp_resume fresh_manager unselected_store)
       \<lparr>lsf := Obj \<lparr>lsf_task = Obj \<lparr>task_id = 3, lastAnnotation = Undefined\<rparr>\<rparr>\<rparr>"

definition idle_editor_annotation_selected :: data_manager where
  "idle_editor_annotation_selected =
     (initApp_resume fresh_manager annotation_only_store)\<lparr>lsf := Obj \<lparr>lsf_task = Undefined\<rparr>\<rparr>"

definition idle_editor_nothing_selected :: data_manager where
  "idle_editor_nothing_selected =
     (initApp_resume fresh_manager unselected_store)\<lparr>lsf := Obj \<lparr>lsf_task = Undefined\<rparr>\<rparr>"

text \<open>A manager with a store, one action and one handler for \<^verbatim>\<open>ready\<close> that returns.\<close>

definition subscribed_manager :: data_manager where
  "subscribed_manager = on registered_manager ''ready'' quiet_handler"

text \<open>A host program that never calls \<^verbatim>\<open>on("modeChanged", ...)\<close>.\<close>

definition example_program :: "command list" where
  "example_program =
     [CallOn ''ready'' quiet_handler, CreateAppFulfilled example_store,
      CallOff ''ready'' (Some quiet_handler), CallDestroy True]"

section \<open>Properties of the table controller\<close>

lemma truthy_js_index: "truthy (js_index data i) = (i < length data)"
  by (simp add: js_index_def)

text \<open>The only state in which \<^verbatim>\<open>loadMore\<close> returns without a fetch.\<close>

lemma loadMore_silent: "loadMore ds = [] \<longleftrightarrow> \<not> hasNextPage ds \<and> loading ds"
  by (simp add: loadMore_def)

text \<open>
  C1. The specification has \<^verbatim>\<open>loadMore\<close> leave without a fetch unless
  \<^verbatim>\<open>hasNextPage && !loading\<close>. The guard of the source is
  \<^verbatim>\<open>!hasNextPage && loading\<close>, so the function leaves in one state only. At end of data
  (no next page, nothing loading) and during a load in flight (next page, loading) it
  calls \<^verbatim>\<open>fetch\<close>; two calls made while a load is in flight both reach \<^verbatim>\<open>fetch\<close>.
\<close>

theorem loadMore_fetches_outside_guard:
  "loadMore \<lparr>hasNextPage = False, loading = False\<rparr> = [Fetch ''scroll'']
   \<and> loadMore \<lparr>hasNextPage = True, loading = True\<rparr> = [Fetch ''scroll'']
   \<and> loadMore \<lparr>hasNextPage = True, loading = True\<rparr>
       @ loadMore \<lparr>hasNextPage = True, loading = True\<rparr>
     = [Fetch ''scroll'', Fetch ''scroll'']
   \<and> loadMore \<lparr>hasNextPage = False, loading = True\<rparr> = []"
  by (simp add: loadMore_def)

text \<open>
  C7. \<^verbatim>\<open>isItemLoaded\<close> returns \<^verbatim>\<open>!hasNextPage || (data[index] is defined)\<close>; it holds at
  every index below the length of the data, and it fails at the index equal to the length
  whenever a next page exists. The function has no effect: its model has no state result.
\<close>

theorem isItemLoaded_spec:
  "isItemLoaded ds data i = (\<not> hasNextPage ds \<or> js_index data i \<noteq> Undefined)
   \<and> (i < length data \<longrightarrow> isItemLoaded ds data i)
   \<and> (hasNextPage ds \<longrightarrow> \<not> isItemLoaded ds data (length data))"
proof -
  have eq: "isItemLoaded ds data j = (\<not> hasNextPage ds \<or> j < length data)" for j
    by (simp add: isItemLoaded_def truthy_js_index)
  have defined: "js_index data i \<noteq> Undefined \<longleftrightarrow> i < length data"
    by (simp add: js_index_def)
  show ?thesis
    by (simp add: eq defined)
qed

theorem isItemLoaded_spec_witness:
  "isItemLoaded \<lparr>hasNextPage = True, loading = False\<rparr> [10, 20, 30 :: nat] 1
   \<and> (1::nat) < length [10, 20, 30 :: nat]
   \<and> hasNextPage \<lparr>hasNextPage = True, loading = False\<rparr>
   \<and> \<not> isItemLoaded \<lparr>hasNextPage = True, loading = False\<rparr> [10, 20, 30 :: nat] 3"
  using isItemLoaded_spec [of "\<lparr>hasNextPage = True, loading = False\<rparr>" "[10, 20, 30 :: nat]" 1]
  by (simp add: numeral_3_eq_3 js_index_def)

section \<open>Properties of the Data Manager\<close>

subsection \<open>Association lists and sets\<close>

lemma set_update_subset: "set (AList.update k v al) \<subseteq> insert (k, v) (set al)"
  by (induction al) auto

lemma Set_add_distinct: "distinct (map cb_id s) \<Longrightarrow> distinct (map cb_id (Set_add s x))"
  by (simp add: Set_add_def)

lemma Set_add_member: "cb_id x \<in> cb_id ` set (Set_add s x)"
  by (simp add: Set_add_def)

lemma Set_delete_member: "cb_id x \<notin> cb_id ` set (Set_delete s x)"
  by (auto simp: Set_delete_def)

subsection \<open>Fields that an operation leaves alone\<close>

lemma record_effect_fields [simp]:
  "store (record_effect e dm) = store dm"
  "lsf (record_effect e dm) = lsf dm"
  "mode (record_effect e dm) = mode dm"
  "callbacks (record_effect e dm) = callbacks dm"
  "set_objects (record_effect e dm) = set_objects dm"
  "actions (record_effect e dm) = actions dm"
  "instruments (record_effect e dm) = instruments dm"
  "trace (record_effect e dm) = trace dm @ [e]"
  by (simp_all add: record_effect_def)

lemma update_Set_fields [simp]:
  "store (update_Set r f dm) = store dm"
  "lsf (update_Set r f dm) = lsf dm"
  "mode (update_Set r f dm) = mode dm"
  "callbacks (update_Set r f dm) = callbacks dm"
  "actions (update_Set r f dm) = actions dm"
  "instruments (update_Set r f dm) = instruments dm"
  "trace (update_Set r f dm) = trace dm"
  "length (set_objects (update_Set r f dm)) = length (set_objects dm)"
  by (simp_all add: update_Set_def)

lemma getEventCallbacks_known:
  "map_of (callbacks dm) name = Some events \<Longrightarrow> getEventCallbacks dm name = (events, dm)"
  by (simp add: getEventCallbacks_def)

lemma getEventCallbacks_unknown:
  "map_of (callbacks dm) name = None \<Longrightarrow>
   getEventCallbacks dm name = (length (set_objects dm), dm\<lparr>set_objects := set_objects dm @ [[]]\<rparr>)"
  by (simp add: getEventCallbacks_def new_Set_def)

lemma getEventCallbacks_fields [simp]:
  "store (snd (getEventCallbacks dm name)) = store dm"
  "lsf (snd (getEventCallbacks dm name)) = lsf dm"
  "mode (snd (getEventCallbacks dm name)) = mode dm"
  "callbacks (snd (getEventCallbacks dm name)) = callbacks dm"
  "actions (snd (getEventCallbacks dm name)) = actions dm"
  "instruments (snd (getEventCallbacks dm name)) = instruments dm"
  "trace (snd (getEventCallbacks dm name)) = trace dm"
  by (simp_all add: getEventCallbacks_def new_Set_def split: option.splits)

text \<open>The set that \<^verbatim>\<open>getEventCallbacks\<close> returns holds the subscribers of the name.\<close>

lemma getEventCallbacks_contents:
  "set_objects (snd (getEventCallbacks dm name)) ! fst (getEventCallbacks dm name) = subscribers dm name"
  by (simp add: getEventCallbacks_def new_Set_def subscribers_def split: option.splits)

lemma getEventCallbacks_extends:
  "\<exists>g. set_objects (snd (getEventCallbacks dm name)) = set_objects dm @ g"
  by (simp add: getEventCallbacks_def new_Set_def split: option.splits)

subsection \<open>The loop of \<^verbatim>\<open>invoke\<close>\<close>

lemma until_throw_Nil [simp]: "until_throw [] args = []"
  by (simp add: until_throw_def)

lemma until_throw_Cons:
  "until_throw (cb # hs) args = cb # (if cb_run cb args = None then until_throw hs args else [])"
  by (simp add: until_throw_def)

lemma first_throw_Nil [simp]: "first_throw [] args = None"
  by (simp add: first_throw_def)

lemma first_throw_Cons:
  "first_throw (cb # hs) args = (if cb_run cb args = None then first_throw hs args else cb_run cb args)"
  by (simp add: first_throw_def)

lemma until_throw_all:
  "\<forall>cb \<in> set hs. cb_run cb args = None \<Longrightarrow> until_throw hs args = hs"
  by (induction hs) (simp_all add: until_throw_Cons)

lemma first_throw_none:
  "\<forall>cb \<in> set hs. cb_run cb args = None \<Longrightarrow> first_throw hs args = None"
  by (induction hs) (simp_all add: first_throw_Cons)

lemma forEach_apply_eq:
  "forEach_apply hs args dm =
     (first_throw hs args, dm\<lparr>trace := trace dm @ map (\<lambda>cb. Applied cb args) (until_throw hs args)\<rparr>)"
proof (induction hs arbitrary: dm)
  case Nil
  show ?case by simp
next
  case (Cons cb hs)
  show ?case
  proof (cases "cb_run cb args")
    case None
    then show ?thesis
      by (simp add: Cons.IH until_throw_Cons first_throw_Cons record_effect_def)
  next
    case (Some e)
    then show ?thesis
      by (simp add: until_throw_Cons first_throw_Cons record_effect_def)
  qed
qed

lemma invoke_eq:
  "invoke dm name args =
     (first_throw (subscribers dm name) args,
      (snd (getEventCallbacks dm name))
        \<lparr>trace := trace dm @ Invoked name args # map (\<lambda>cb. Applied cb args) (until_throw (subscribers dm name) args)\<rparr>)"
  by (simp add: invoke_def forEach_apply_eq getEventCallbacks_def new_Set_def subscribers_def
      record_effect_def split: option.splits)

lemma invoke_fields [simp]:
  "store (snd (invoke dm name args)) = store dm"
  "lsf (snd (invoke dm name args)) = lsf dm"
  "mode (snd (invoke dm name args)) = mode dm"
  "callbacks (snd (invoke dm name args)) = callbacks dm"
  "actions (snd (invoke dm name args)) = actions dm"
  "instruments (snd (invoke dm name args)) = instruments dm"
  by (simp_all add: invoke_eq)

lemma invoke_trace:
  "trace (snd (invoke dm name args)) =
     trace dm @ Invoked name args # map (\<lambda>cb. Applied cb args) (until_throw (subscribers dm name) args)"
  by (simp add: invoke_eq)

lemma invoke_extends: "\<exists>g. set_objects (snd (invoke dm name args)) = set_objects dm @ g"
  using getEventCallbacks_extends [of dm name] by (simp add: invoke_eq)

lemma map_filter_fired_applied [simp]:
  "List.map_filter fired (map (\<lambda>cb. Applied cb args) hs) = []"
  by (induction hs) simp_all

lemma map_filter_applied_applied [simp]:
  "List.map_filter applied (map (\<lambda>cb. Applied cb args) hs) = map (\<lambda>cb. (cb, args)) hs"
  by (induction hs) simp_all

lemma effects_since_append [simp]:
  "trace dm' = trace dm @ es \<Longrightarrow> effects_since dm dm' = es"
  by (simp add: effects_since_def)

lemma invoke_events_fired: "events_fired dm (snd (invoke dm name args)) = [(name, args)]"
  by (simp add: events_fired_def invoke_trace)

lemma invoke_deliveries:
  "deliveries dm (snd (invoke dm name args)) = map (\<lambda>cb. (cb, args)) (until_throw (subscribers dm name) args)"
  by (simp add: deliveries_def invoke_trace)


subsection \<open>The invariant\<close>

lemma well_formed_frame:
  "well_formed dm \<Longrightarrow> callbacks dm' = callbacks dm \<Longrightarrow> actions dm' = actions dm \<Longrightarrow>
   length (set_objects dm) \<le> length (set_objects dm') \<Longrightarrow> well_formed dm'"
  by (fastforce simp: well_formed_def)

lemma well_formed_new: "well_formed (new_DataManager config)"
  by (simp add: well_formed_def new_DataManager_def initApp_def)

lemma well_formed_record_effect [simp]: "well_formed (record_effect e dm) = well_formed dm"
  by (simp add: well_formed_def)

lemma getEventCallbacks_length:
  "length (set_objects dm) \<le> length (set_objects (snd (getEventCallbacks dm name)))"
  using getEventCallbacks_extends [of dm name] by auto

lemma getEventCallbacks_ref:
  "well_formed dm \<Longrightarrow>
   fst (getEventCallbacks dm name) < length (set_objects (snd (getEventCallbacks dm name)))"
  by (auto simp: getEventCallbacks_def new_Set_def well_formed_def split: option.splits
      dest!: map_of_SomeD)

lemma well_formed_getEventCallbacks:
  "well_formed dm \<Longrightarrow> well_formed (snd (getEventCallbacks dm name))"
  by (rule well_formed_frame [where dm = dm]) (simp_all add: getEventCallbacks_length)

subsection \<open>\<^verbatim>\<open>on\<close>, \<^verbatim>\<open>off\<close>, \<^verbatim>\<open>hasHandler\<close>\<close>

lemma on_eq:
  "on dm name cb =
     (update_Set (fst (getEventCallbacks dm name)) (\<lambda>s. Set_add s cb) (snd (getEventCallbacks dm name)))
       \<lparr>callbacks := AList.update name (fst (getEventCallbacks dm name)) (callbacks dm)\<rparr>"
  by (simp add: on_def Let_def split_beta)

lemma on_fields [simp]:
  "store (on dm name cb) = store dm"
  "lsf (on dm name cb) = lsf dm"
  "mode (on dm name cb) = mode dm"
  "actions (on dm name cb) = actions dm"
  "instruments (on dm name cb) = instruments dm"
  "trace (on dm name cb) = trace dm"
  "callbacks (on dm name cb) = AList.update name (fst (getEventCallbacks dm name)) (callbacks dm)"
  by (simp_all add: on_eq)

lemma on_length:
  "length (set_objects (on dm name cb)) = length (set_objects (snd (getEventCallbacks dm name)))"
  by (simp add: on_eq)

lemma well_formed_on: "well_formed dm \<Longrightarrow> well_formed (on dm name cb)"
proof -
  assume wf: "well_formed dm"
  let ?r = "fst (getEventCallbacks dm name)"
  have r: "?r < length (set_objects (on dm name cb))"
    using getEventCallbacks_ref [OF wf, of name] by (simp add: on_length)
  have old: "\<forall>(n, e) \<in> set (callbacks dm). e < length (set_objects (on dm name cb))"
    using wf getEventCallbacks_length [of dm name] by (fastforce simp: well_formed_def on_length)
  have "\<forall>(n, e) \<in> set (callbacks (on dm name cb)). e < length (set_objects (on dm name cb))"
    using r old set_update_subset [of name ?r "callbacks dm"] by auto
  then show ?thesis using wf by (simp add: well_formed_def)
qed

text \<open>Registration appends the handler to the set of the name, unless it is there already.\<close>

lemma subscribers_on:
  "well_formed dm \<Longrightarrow> subscribers (on dm name cb) name = Set_add (subscribers dm name) cb"
proof -
  assume wf: "well_formed dm"
  let ?r = "fst (getEventCallbacks dm name)" and ?d = "snd (getEventCallbacks dm name)"
  have "subscribers (on dm name cb) name = set_objects (on dm name cb) ! ?r"
    by (simp add: subscribers_def update_conv')
  also have "\<dots> = Set_add (set_objects ?d ! ?r) cb"
    using getEventCallbacks_ref [OF wf, of name] by (simp add: on_eq update_Set_def)
  finally show ?thesis by (simp add: getEventCallbacks_contents)
qed

lemma off_eq:
  "off dm name c =
     update_Set (fst (getEventCallbacks dm name))
       (case c of Some cb \<Rightarrow> (\<lambda>s. Set_delete s cb) | None \<Rightarrow> (\<lambda>s. []))
       (snd (getEventCallbacks dm name))"
  by (simp add: off_def Let_def split_beta split: option.splits)

lemma off_fields [simp]:
  "store (off dm name c) = store dm"
  "lsf (off dm name c) = lsf dm"
  "mode (off dm name c) = mode dm"
  "callbacks (off dm name c) = callbacks dm"
  "actions (off dm name c) = actions dm"
  "instruments (off dm name c) = instruments dm"
  "trace (off dm name c) = trace dm"
  by (simp_all add: off_eq)

lemma off_length:
  "length (set_objects (off dm name c)) = length (set_objects (snd (getEventCallbacks dm name)))"
  by (simp add: off_eq)

lemma well_formed_off: "well_formed dm \<Longrightarrow> well_formed (off dm name c)"
  by (rule well_formed_frame [where dm = dm]) (simp_all add: off_length getEventCallbacks_length)

text \<open>For a name without an entry, \<^verbatim>\<open>off\<close> works on a fresh set and leaves it empty.\<close>

lemma off_unknown:
  "map_of (callbacks dm) name = None \<Longrightarrow> set_objects (off dm name c) = set_objects dm @ [[]]"
  by (simp add: off_eq getEventCallbacks_unknown update_Set_def Set_delete_def split: option.splits)

lemma subscription_map_extend:
  "well_formed dm \<Longrightarrow> callbacks dm' = callbacks dm \<Longrightarrow> set_objects dm' = set_objects dm @ g \<Longrightarrow>
   subscription_map dm' = subscription_map dm"
proof
  fix name
  assume wf: "well_formed dm" and c: "callbacks dm' = callbacks dm"
    and s: "set_objects dm' = set_objects dm @ g"
  show "subscription_map dm' name = subscription_map dm name"
  proof (cases "map_of (callbacks dm) name")
    case None
    then show ?thesis by (simp add: subscription_map_def c)
  next
    case (Some r)
    then have "(name, r) \<in> set (callbacks dm)" by (rule map_of_SomeD)
    with wf have "r < length (set_objects dm)" by (auto simp: well_formed_def)
    with Some show ?thesis by (simp add: subscription_map_def c s nth_append)
  qed
qed

lemma subscribers_subscription_map:
  "subscribers dm name = (case subscription_map dm name of None \<Rightarrow> [] | Some s \<Rightarrow> s)"
  by (simp add: subscribers_def subscription_map_def split: option.splits)

lemma hasHandler_eq: "hasHandler dm name = (subscribers dm name \<noteq> [])"
  by (simp add: hasHandler_def split_beta getEventCallbacks_contents)

lemma subscribers_unknown: "map_of (callbacks dm) name = None \<Longrightarrow> subscribers dm name = []"
  by (simp add: subscribers_def)

lemma well_formed_invoke: "well_formed dm \<Longrightarrow> well_formed (snd (invoke dm name args))"
  using invoke_extends [of dm name args]
  by (auto intro!: well_formed_frame [where dm = dm])


subsection \<open>The action registry\<close>

lemma addAction_no_id:
  "\<not> truthy_id (action_id a) \<Longrightarrow>
   addAction dm a cb = (Some (Error ''Action must provide a unique ID''), dm)"
  by (simp add: addAction_def truthy_id_def split: option.splits)

lemma addAction_stored:
  "action_id a = Some k \<Longrightarrow> k \<noteq> [] \<Longrightarrow>
   actions (snd (addAction dm a cb)) = AList.update k (a, cb) (actions dm)"
  by (simp add: addAction_def Let_def split: nullable.splits)

lemma addAction_ok:
  "action_id a = Some k \<Longrightarrow> k \<noteq> [] \<Longrightarrow> store dm = Obj s \<Longrightarrow>
   addAction dm a cb =
     (None, record_effect (StoreAddActions a) (dm\<lparr>actions := AList.update k (a, cb) (actions dm)\<rparr>))"
  by (simp add: addAction_def Let_def)

lemma addAction_null_store:
  "action_id a = Some k \<Longrightarrow> k \<noteq> [] \<Longrightarrow> \<not> truthy (store dm) \<Longrightarrow>
   addAction dm a cb = (Some TypeError, dm\<lparr>actions := AList.update k (a, cb) (actions dm)\<rparr>)"
  by (cases "store dm") (simp_all add: addAction_def Let_def)

lemma addAction_success:
  "fst (addAction dm a cb) = None \<Longrightarrow> \<exists>k. action_id a = Some k \<and> k \<noteq> []"
  by (auto simp: addAction_def Let_def split: option.splits if_splits)

lemma addAction_fields [simp]:
  "store (snd (addAction dm a cb)) = store dm"
  "lsf (snd (addAction dm a cb)) = lsf dm"
  "mode (snd (addAction dm a cb)) = mode dm"
  "callbacks (snd (addAction dm a cb)) = callbacks dm"
  "set_objects (snd (addAction dm a cb)) = set_objects dm"
  "instruments (snd (addAction dm a cb)) = instruments dm"
  by (simp_all add: addAction_def Let_def split: option.splits nullable.splits)

lemma getAction_update: "getAction (dm\<lparr>actions := AList.update k (a, cb) al\<rparr>) k = Some cb"
  by (simp add: getAction_def update_conv')

lemma getAction_after_addAction:
  "action_id a = Some k \<Longrightarrow> k \<noteq> [] \<Longrightarrow> getAction (snd (addAction dm a cb)) k = Some cb"
  by (simp add: getAction_def addAction_stored update_conv')

lemma well_formed_addAction: "well_formed dm \<Longrightarrow> well_formed (snd (addAction dm a cb))"
proof (cases "truthy_id (action_id a)")
  case False
  assume "well_formed dm"
  with False show ?thesis by (simp add: addAction_no_id)
next
  case True
  assume wf: "well_formed dm"
  from True obtain k where k: "action_id a = Some k" "k \<noteq> []"
    by (auto simp: truthy_id_def split: option.splits)
  have "set (AList.update k (a, cb) (actions dm)) \<subseteq> insert (k, a, cb) (set (actions dm))"
    by (rule set_update_subset)
  with wf k show ?thesis
    by (fastforce simp: well_formed_def addAction_stored distinct_update)
qed

lemma removeAction_fields [simp]:
  "store (snd (removeAction dm i)) = store dm"
  "lsf (snd (removeAction dm i)) = lsf dm"
  "mode (snd (removeAction dm i)) = mode dm"
  "callbacks (snd (removeAction dm i)) = callbacks dm"
  "set_objects (snd (removeAction dm i)) = set_objects dm"
  "instruments (snd (removeAction dm i)) = instruments dm"
  "actions (snd (removeAction dm i)) = AList.delete i (actions dm)"
  by (simp_all add: removeAction_def Let_def split: nullable.splits)

lemma set_delete_subset: "set (AList.delete k al) \<subseteq> set al"
  by (simp add: AList.delete_eq)

lemma well_formed_removeAction: "well_formed dm \<Longrightarrow> well_formed (snd (removeAction dm i))"
  using set_delete_subset [of i "actions dm"]
  by (fastforce simp: well_formed_def distinct_delete)

lemma forEach_addAction_fields:
  "store (snd (forEach_addAction es dm)) = store dm
   \<and> lsf (snd (forEach_addAction es dm)) = lsf dm
   \<and> mode (snd (forEach_addAction es dm)) = mode dm
   \<and> callbacks (snd (forEach_addAction es dm)) = callbacks dm
   \<and> set_objects (snd (forEach_addAction es dm)) = set_objects dm
   \<and> instruments (snd (forEach_addAction es dm)) = instruments dm"
proof (induction es arbitrary: dm)
  case Nil
  show ?case by simp
next
  case (Cons e es)
  obtain k a cb where e: "e = (k, a, cb)" by (cases e)
  obtain r dm1 where r: "addAction dm a cb = (r, dm1)" by (cases "addAction dm a cb")
  have f: "store dm1 = store dm" "lsf dm1 = lsf dm" "mode dm1 = mode dm"
    "callbacks dm1 = callbacks dm" "set_objects dm1 = set_objects dm" "instruments dm1 = instruments dm"
    using addAction_fields [of dm a cb] by (simp_all add: r)
  show ?case
    using Cons.IH [of dm1] by (cases r) (simp_all add: e r f)
qed

lemma well_formed_forEach_addAction:
  "well_formed dm \<Longrightarrow> well_formed (snd (forEach_addAction es dm))"
proof (induction es arbitrary: dm)
  case Nil
  then show ?case by simp
next
  case (Cons e es)
  obtain k a cb where e: "e = (k, a, cb)" by (cases e)
  obtain r dm1 where r: "addAction dm a cb = (r, dm1)" by (cases "addAction dm a cb")
  have "well_formed dm1" using well_formed_addAction [OF Cons.prems, of a cb] by (simp add: r)
  then show ?case using Cons.IH [of dm1] by (cases r) (simp_all add: e r)
qed

text \<open>
  With a store in place, re-adding entries that the registry already holds changes
  nothing in the registry and hands each action to \<^verbatim>\<open>store.addActions\<close>, in order.
\<close>

lemma forEach_addAction_registered:
  "store dm = Obj s \<Longrightarrow>
   \<forall>(k, a, cb) \<in> set es. map_of (actions dm) k = Some (a, cb) \<and> action_id a = Some k \<and> k \<noteq> [] \<Longrightarrow>
   forEach_addAction es dm =
     (None, dm\<lparr>trace := trace dm @ map (\<lambda>(k, a, cb). StoreAddActions a) es\<rparr>)"
proof (induction es arbitrary: dm)
  case Nil
  show ?case by simp
next
  case (Cons e es)
  obtain k a cb where e: "e = (k, a, cb)" by (cases e)
  from Cons.prems e have k: "map_of (actions dm) k = Some (a, cb)" "action_id a = Some k" "k \<noteq> []"
    by auto
  let ?dm1 = "record_effect (StoreAddActions a) dm"
  have step: "addAction dm a cb = (None, ?dm1)"
    using k Cons.prems(1) by (simp add: addAction_ok update_triv)
  have "forEach_addAction es ?dm1 =
          (None, ?dm1\<lparr>trace := trace ?dm1 @ map (\<lambda>(k, a, cb). StoreAddActions a) es\<rparr>)"
    using Cons.prems by (intro Cons.IH) auto
  then show ?case by (simp add: e step record_effect_def)
qed

lemma installActions_registered:
  "well_formed dm \<Longrightarrow> store dm = Obj s \<Longrightarrow>
   installActions dm =
     (None, dm\<lparr>trace := trace dm @ map (\<lambda>(k, a, cb). StoreAddActions a) (actions dm)\<rparr>)"
  unfolding installActions_def
  by (rule forEach_addAction_registered) (auto simp: well_formed_def)

subsection \<open>\<^verbatim>\<open>destroy\<close> and \<^verbatim>\<open>reload\<close>\<close>

lemma destroy_keep:
  "callbacks (destroy dm False) = callbacks dm"
  "set_objects (destroy dm False) = set_objects dm"
  "actions (destroy dm False) = actions dm"
  "store (destroy dm False) = store dm"
  "instruments (destroy dm False) = instruments dm"
  "mode (destroy dm False) = mode dm"
  "lsf (destroy dm False) = lsf dm"
  by (simp_all add: destroy_def Let_def split: nullable.splits)

lemma destroy_keep_trace:
  "trace (destroy dm False) =
     trace dm @ (if truthy (store dm) \<and> has_destroy (case store dm of Obj s \<Rightarrow> s) then [StoreDestroy] else [])
       @ [UnmountComponentAtNode]"
  by (cases "store dm") (simp_all add: destroy_def Let_def)

lemma update_Set_nth:
  "r < length (set_objects dm) \<Longrightarrow> set_objects (update_Set r f dm) ! r = f (set_objects dm ! r)"
  by (simp add: update_Set_def)

lemma update_Set_nth_other:
  "r' \<noteq> r \<Longrightarrow> set_objects (update_Set r' f dm) ! r = set_objects dm ! r"
  by (simp add: update_Set_def)

lemma fold_clear_fields:
  "callbacks (fold (\<lambda>(name, events). update_Set events (\<lambda>s. [])) cbs dm) = callbacks dm
   \<and> actions (fold (\<lambda>(name, events). update_Set events (\<lambda>s. [])) cbs dm) = actions dm
   \<and> store (fold (\<lambda>(name, events). update_Set events (\<lambda>s. [])) cbs dm) = store dm
   \<and> lsf (fold (\<lambda>(name, events). update_Set events (\<lambda>s. [])) cbs dm) = lsf dm
   \<and> mode (fold (\<lambda>(name, events). update_Set events (\<lambda>s. [])) cbs dm) = mode dm
   \<and> instruments (fold (\<lambda>(name, events). update_Set events (\<lambda>s. [])) cbs dm) = instruments dm
   \<and> trace (fold (\<lambda>(name, events). update_Set events (\<lambda>s. [])) cbs dm) = trace dm
   \<and> length (set_objects (fold (\<lambda>(name, events). update_Set events (\<lambda>s. [])) cbs dm)) = length (set_objects dm)"
  by (induction cbs arbitrary: dm) (simp_all add: split_beta)

text \<open>Every set object that the map referred to is emptied by the detaching loop.\<close>

lemma fold_clear_emptied:
  "(name, r) \<in> set cbs \<Longrightarrow> r < length (set_objects dm) \<Longrightarrow>
   set_objects (fold (\<lambda>(name, events). update_Set events (\<lambda>s. [])) cbs dm) ! r = []"
proof (induction cbs arbitrary: dm rule: rev_induct)
  case Nil
  then show ?case by simp
next
  case (snoc e cbs)
  obtain n' r' where e: "e = (n', r')" by (cases e)
  let ?d = "fold (\<lambda>(name, events). update_Set events (\<lambda>s. [])) cbs dm"
  have len: "length (set_objects ?d) = length (set_objects dm)"
    using fold_clear_fields [of cbs dm] by simp
  show ?case
  proof (cases "r' = r")
    case True
    then show ?thesis using snoc.prems len by (simp add: e update_Set_nth)
  next
    case False
    with snoc.prems e have "(name, r) \<in> set cbs" by auto
    then have "set_objects ?d ! r = []" using snoc.prems by (intro snoc.IH)
    then show ?thesis using False by (simp add: e update_Set_nth_other)
  qed
qed

lemma destroy_detach_callbacks: "callbacks (destroy dm True) = []"
  by (simp add: destroy_def Let_def)

lemma destroy_fields [simp]:
  "actions (destroy dm d) = actions dm"
  "store (destroy dm d) = store dm"
  "lsf (destroy dm d) = lsf dm"
  "mode (destroy dm d) = mode dm"
  "instruments (destroy dm d) = instruments dm"
  "length (set_objects (destroy dm d)) = length (set_objects dm)"
  by (simp_all add: destroy_def Let_def fold_clear_fields split: nullable.splits)

lemma destroy_detach_emptied:
  "well_formed dm \<Longrightarrow> (name, r) \<in> set (callbacks dm) \<Longrightarrow> set_objects (destroy dm True) ! r = []"
proof -
  assume wf: "well_formed dm" and m: "(name, r) \<in> set (callbacks dm)"
  then have r: "r < length (set_objects dm)" by (auto simp: well_formed_def)
  define d where "d = record_effect UnmountComponentAtNode
     (case store dm of Obj s \<Rightarrow> if has_destroy s then record_effect StoreDestroy dm else dm | _ \<Rightarrow> dm)"
  have c: "callbacks d = callbacks dm" and s: "set_objects d = set_objects dm"
    by (simp_all add: d_def split: nullable.splits)
  have "set_objects (fold (\<lambda>(name, events). update_Set events (\<lambda>s. [])) (callbacks d) d) ! r = []"
    using m r by (intro fold_clear_emptied [where name = name]) (simp_all add: c s)
  moreover have "destroy dm True =
      (fold (\<lambda>(name, events). update_Set events (\<lambda>s. [])) (callbacks d) d)\<lparr>callbacks := []\<rparr>"
    by (simp add: destroy_def Let_def d_def)
  ultimately show ?thesis by simp
qed

lemma well_formed_destroy: "well_formed dm \<Longrightarrow> well_formed (destroy dm d)"
  by (cases d) (simp_all add: well_formed_def destroy_keep destroy_detach_callbacks)

lemma initApp_fields [simp]:
  "callbacks (initApp dm) = callbacks dm"
  "set_objects (initApp dm) = set_objects dm"
  "actions (initApp dm) = actions dm"
  "store (initApp dm) = store dm"
  "lsf (initApp dm) = lsf dm"
  "mode (initApp dm) = mode dm"
  "instruments (initApp dm) = instruments dm"
  "trace (initApp dm) = trace dm @ [CreateApp]"
  by (simp_all add: initApp_def)

lemma well_formed_initApp [simp]: "well_formed (initApp dm) = well_formed dm"
  by (simp add: initApp_def)

lemma reload_fields [simp]:
  "callbacks (snd (reload dm)) = callbacks dm"
  "set_objects (snd (reload dm)) = set_objects dm"
  "store (snd (reload dm)) = store dm"
  "lsf (snd (reload dm)) = lsf dm"
  "mode (snd (reload dm)) = mode dm"
  "instruments (snd (reload dm)) = instruments dm"
  by (simp_all add: reload_def installActions_def forEach_addAction_fields destroy_keep)

lemma well_formed_reload: "well_formed dm \<Longrightarrow> well_formed (snd (reload dm))"
  by (simp add: reload_def installActions_def well_formed_forEach_addAction well_formed_destroy)

lemma reload_registered:
  "well_formed dm \<Longrightarrow> store dm = Obj s \<Longrightarrow>
   fst (reload dm) = None
   \<and> actions (snd (reload dm)) = actions dm
   \<and> trace (snd (reload dm)) =
       trace (destroy dm False) @ CreateApp # map (\<lambda>(k, a, cb). StoreAddActions a) (actions dm)"
proof -
  assume wf: "well_formed dm" and s: "store dm = Obj s"
  let ?d = "initApp (destroy dm False)"
  have "well_formed ?d" using wf by (simp add: well_formed_destroy)
  moreover have "store ?d = Obj s" using s by simp
  ultimately have "installActions ?d =
     (None, ?d\<lparr>trace := trace ?d @ map (\<lambda>(k, a, cb). StoreAddActions a) (actions ?d)\<rparr>)"
    by (rule installActions_registered)
  then show ?thesis by (simp add: reload_def)
qed

lemma subscribers_cong:
  "callbacks dm' = callbacks dm \<Longrightarrow> set_objects dm' = set_objects dm \<Longrightarrow>
   subscribers dm' = subscribers dm"
  by (rule ext) (simp add: subscribers_def split: option.splits)

lemma subscription_map_cong:
  "callbacks dm' = callbacks dm \<Longrightarrow> set_objects dm' = set_objects dm \<Longrightarrow>
   subscription_map dm' = subscription_map dm"
  by (rule ext) (simp add: subscription_map_def)


subsection \<open>Mode, instruments, editor\<close>

lemma setMode_ok:
  "store dm = Obj s \<Longrightarrow>
   setMode dm m =
     (None,
      if m \<noteq> mode dm
      then snd (invoke (record_effect (StoreSetMode m) (dm\<lparr>mode := m\<rparr>)) ''modeChanged'' [Str m])
      else record_effect (StoreSetMode m) (dm\<lparr>mode := m\<rparr>))"
  by (simp add: setMode_def Let_def)

lemma setMode_null_store:
  "\<not> truthy (store dm) \<Longrightarrow> setMode dm m = (Some TypeError, dm\<lparr>mode := m\<rparr>)"
  by (cases "store dm") (simp_all add: setMode_def Let_def)

lemma setMode_fields [simp]:
  "store (snd (setMode dm m)) = store dm"
  "lsf (snd (setMode dm m)) = lsf dm"
  "mode (snd (setMode dm m)) = m"
  "callbacks (snd (setMode dm m)) = callbacks dm"
  "actions (snd (setMode dm m)) = actions dm"
  "instruments (snd (setMode dm m)) = instruments dm"
  by (cases "store dm"; simp add: setMode_def Let_def)+

lemma setMode_extends: "\<exists>g. set_objects (snd (setMode dm m)) = set_objects dm @ g"
proof (cases "store dm")
  case (Obj s)
  show ?thesis
    using invoke_extends [of "record_effect (StoreSetMode m) (dm\<lparr>mode := m\<rparr>)" "''modeChanged''" "[Str m]"]
    by (simp add: setMode_ok [OF Obj])
qed (simp_all add: setMode_null_store)

lemma well_formed_setMode: "well_formed dm \<Longrightarrow> well_formed (snd (setMode dm m))"
  using setMode_extends [of dm m]
  by (auto intro!: well_formed_frame [where dm = dm])

lemma setMode_trace:
  "store dm = Obj s \<Longrightarrow>
   trace (snd (setMode dm m)) =
     trace dm @ StoreSetMode m #
       (if m \<noteq> mode dm
        then Invoked ''modeChanged'' [Str m] #
             map (\<lambda>cb. Applied cb [Str m]) (until_throw (subscribers dm ''modeChanged'') [Str m])
        else [])"
proof -
  assume s: "store dm = Obj s"
  have "subscribers (record_effect (StoreSetMode m) (dm\<lparr>mode := m\<rparr>)) = subscribers dm"
    by (rule subscribers_cong) simp_all
  then show ?thesis by (simp add: setMode_ok [OF s] invoke_trace)
qed

lemma registerInstrument_fields [simp]:
  "store (snd (registerInstrument native dm name i)) = store dm"
  "lsf (snd (registerInstrument native dm name i)) = lsf dm"
  "mode (snd (registerInstrument native dm name i)) = mode dm"
  "callbacks (snd (registerInstrument native dm name i)) = callbacks dm"
  "set_objects (snd (registerInstrument native dm name i)) = set_objects dm"
  "actions (snd (registerInstrument native dm name i)) = actions dm"
  by (simp_all add: registerInstrument_def Let_def split: sum.splits nullable.splits)

lemma initLSF_fields [simp]:
  "store (snd (initLSF dm w)) = store dm"
  "mode (snd (initLSF dm w)) = mode dm"
  "callbacks (snd (initLSF dm w)) = callbacks dm"
  "set_objects (snd (initLSF dm w)) = set_objects dm"
  "actions (snd (initLSF dm w)) = actions dm"
  "instruments (snd (initLSF dm w)) = instruments dm"
  by (simp_all add: initLSF_def Let_def split: nullable.splits)

lemma startLabeling_fields [simp]:
  "store (snd (startLabeling dm)) = store dm"
  "lsf (snd (startLabeling dm)) = lsf dm"
  "mode (snd (startLabeling dm)) = mode dm"
  "callbacks (snd (startLabeling dm)) = callbacks dm"
  "set_objects (snd (startLabeling dm)) = set_objects dm"
  "actions (snd (startLabeling dm)) = actions dm"
  "instruments (snd (startLabeling dm)) = instruments dm"
  by (simp_all add: startLabeling_def Let_def split: nullable.splits)

lemma destroyLSF_fields [simp]:
  "store (destroyLSF dm) = store dm"
  "lsf (destroyLSF dm) = Undefined"
  "mode (destroyLSF dm) = mode dm"
  "callbacks (destroyLSF dm) = callbacks dm"
  "set_objects (destroyLSF dm) = set_objects dm"
  "actions (destroyLSF dm) = actions dm"
  "instruments (destroyLSF dm) = instruments dm"
  by (simp_all add: destroyLSF_def)

lemma initApp_resume_fields [simp]:
  "store (initApp_resume dm s) = Obj s"
  "lsf (initApp_resume dm s) = lsf dm"
  "mode (initApp_resume dm s) = mode dm"
  "callbacks (initApp_resume dm s) = callbacks dm"
  "actions (initApp_resume dm s) = actions dm"
  "instruments (initApp_resume dm s) = instruments dm"
  by (simp_all add: initApp_resume_def)

lemma well_formed_initApp_resume: "well_formed dm \<Longrightarrow> well_formed (initApp_resume dm s)"
  using invoke_extends [of "dm\<lparr>store := Obj s\<rparr>" "''ready''" "[This]"]
  by (auto intro!: well_formed_frame [where dm = dm] simp: initApp_resume_def)

lemma initApp_resume_deliveries:
  "deliveries dm (initApp_resume dm s) =
     map (\<lambda>cb. (cb, [This])) (until_throw (subscribers dm ''ready'') [This])"
proof -
  have "subscribers (dm\<lparr>store := Obj s\<rparr>) = subscribers dm"
    by (rule subscribers_cong) simp_all
  then show ?thesis by (simp add: deliveries_def initApp_resume_def invoke_trace)
qed

subsection \<open>Host programs\<close>

lemma well_formed_step: "well_formed dm \<Longrightarrow> well_formed (step native dm c)"
proof (cases c)
  case (CallOn name cb)
  assume "well_formed dm"
  then show ?thesis by (simp add: CallOn well_formed_on)
next
  case (CallOff name cb)
  assume "well_formed dm"
  then show ?thesis by (simp add: CallOff well_formed_off)
next
  case (CallInvoke name args)
  assume "well_formed dm"
  then show ?thesis by (simp add: CallInvoke well_formed_invoke)
next
  case (CallSetMode m)
  assume "well_formed dm"
  then show ?thesis by (simp add: CallSetMode well_formed_setMode)
next
  case (CallAddAction a cb)
  assume "well_formed dm"
  then show ?thesis by (simp add: CallAddAction well_formed_addAction)
next
  case (CallRemoveAction i)
  assume "well_formed dm"
  then show ?thesis by (simp add: CallRemoveAction well_formed_removeAction)
next
  case CallInstallActions
  assume "well_formed dm"
  then show ?thesis by (simp add: CallInstallActions installActions_def well_formed_forEach_addAction)
next
  case (CallRegisterInstrument name i)
  assume "well_formed dm"
  then show ?thesis by (simp add: CallRegisterInstrument well_formed_def)
next
  case (CallInitLSF w)
  assume "well_formed dm"
  then show ?thesis by (simp add: CallInitLSF well_formed_def)
next
  case CallStartLabeling
  assume "well_formed dm"
  then show ?thesis by (simp add: CallStartLabeling well_formed_def)
next
  case CallDestroyLSF
  assume "well_formed dm"
  then show ?thesis by (simp add: CallDestroyLSF well_formed_def)
next
  case (CallDestroy d)
  assume "well_formed dm"
  then show ?thesis by (simp add: CallDestroy well_formed_destroy)
next
  case CallReload
  assume "well_formed dm"
  then show ?thesis by (simp add: CallReload well_formed_reload)
next
  case (CreateAppFulfilled s)
  assume "well_formed dm"
  then show ?thesis by (simp add: CreateAppFulfilled well_formed_initApp_resume)
qed

text \<open>Only \<^verbatim>\<open>on(name, ...)\<close> gives a name an entry in the subscription map.\<close>

lemma unknown_step:
  "\<not> is_on name c \<Longrightarrow> map_of (callbacks dm) name = None \<Longrightarrow>
   map_of (callbacks (step native dm c)) name = None"
proof (cases c)
  case (CallOn name' cb)
  assume "\<not> is_on name c" "map_of (callbacks dm) name = None"
  then show ?thesis by (simp add: CallOn update_conv')
next
  case (CallDestroy d)
  assume "\<not> is_on name c" "map_of (callbacks dm) name = None"
  then show ?thesis by (cases d) (simp_all add: CallDestroy destroy_keep destroy_detach_callbacks)
next
  case CallInstallActions
  assume "\<not> is_on name c" "map_of (callbacks dm) name = None"
  then show ?thesis by (simp add: CallInstallActions installActions_def forEach_addAction_fields)
qed simp_all

lemma run_Nil [simp]: "run native dm [] = dm"
  by (simp add: run_def)

lemma run_Cons [simp]: "run native dm (c # cs) = run native (step native dm c) cs"
  by (simp add: run_def)

lemma well_formed_run: "well_formed dm \<Longrightarrow> well_formed (run native dm cs)"
  by (induction cs arbitrary: dm) (simp_all add: well_formed_step)

lemma unknown_run:
  "\<forall>c \<in> set cs. \<not> is_on name c \<Longrightarrow> map_of (callbacks dm) name = None \<Longrightarrow>
   map_of (callbacks (run native dm cs)) name = None"
  by (induction cs arbitrary: dm) (simp_all add: unknown_step)

lemma callbacks_new [simp]: "callbacks (new_DataManager config) = []"
  by (simp add: new_DataManager_def)


subsection \<open>Examples\<close>

lemma well_formed_fresh: "well_formed fresh_manager"
  by (simp add: fresh_manager_def well_formed_new)

lemma subscribers_fresh: "subscribers fresh_manager name = []"
  by (simp add: fresh_manager_def subscribers_unknown)

lemma subscribers_two_handlers: "subscribers two_handlers ''ready'' = [failing_handler, quiet_handler]"
  by (simp add: two_handlers_def subscribers_on well_formed_on well_formed_fresh subscribers_fresh
      Set_add_def failing_handler_def quiet_handler_def)

lemma subscribers_two_quiet_handlers:
  "subscribers two_quiet_handlers ''ready'' = [quiet_handler, second_quiet_handler]"
  by (simp add: two_quiet_handlers_def subscribers_on well_formed_on well_formed_fresh subscribers_fresh
      Set_add_def quiet_handler_def second_quiet_handler_def)

lemma well_formed_two_handlers: "well_formed two_handlers"
  by (simp add: two_handlers_def well_formed_on well_formed_fresh)

lemma until_throw_split:
  "\<forall>b \<in> set before. cb_run b args = None \<Longrightarrow> cb_run h args = Some e \<Longrightarrow>
   until_throw (before @ h # after) args = before @ [h]
   \<and> first_throw (before @ h # after) args = Some e"
  by (induction before) (simp_all add: until_throw_Cons first_throw_Cons)

subsection \<open>Event delivery\<close>

text \<open>
  C2, counterexample. Two handlers are registered for \<^verbatim>\<open>ready\<close> and the first throws:
  \<^verbatim>\<open>invoke\<close> calls the first and never the second.
\<close>

theorem invoke_throw_stops_delivery:
  "subscribers two_handlers ''ready'' = [failing_handler, quiet_handler]
   \<and> cb_run failing_handler [This] \<noteq> None
   \<and> deliveries two_handlers (snd (invoke two_handlers ''ready'' [This])) = [(failing_handler, [This])]
   \<and> (quiet_handler, [This]) \<notin> set (deliveries two_handlers (snd (invoke two_handlers ''ready'' [This])))"
  by (simp add: invoke_deliveries subscribers_two_handlers until_throw_Cons
      failing_handler_def quiet_handler_def)

text \<open>
  C2, amended. \<^verbatim>\<open>on\<close> appends a handler to the set of its event name (a handler already
  in the set keeps its place). \<^verbatim>\<open>invoke(name, args)\<close> calls the handlers registered for
  the name with \<open>args\<close>, in registration order: all of them when none throws; otherwise up
  to and including the first one that throws, whose exception rejects the promise, and
  none of the handlers registered after it.
\<close>

theorem invoke_delivers_until_throw:
  "(well_formed dm \<longrightarrow> subscribers (on dm name cb) name = Set_add (subscribers dm name) cb)
   \<and> ((\<forall>h \<in> set (subscribers dm name). cb_run h args = None) \<longrightarrow>
        fst (invoke dm name args) = None
        \<and> deliveries dm (snd (invoke dm name args)) = map (\<lambda>h. (h, args)) (subscribers dm name))
   \<and> (subscribers dm name = before @ h # after
        \<and> (\<forall>b \<in> set before. cb_run b args = None) \<and> cb_run h args = Some e \<longrightarrow>
        fst (invoke dm name args) = Some e
        \<and> deliveries dm (snd (invoke dm name args)) = map (\<lambda>h. (h, args)) (before @ [h]))"
proof (intro conjI impI)
  assume "well_formed dm"
  then show "subscribers (on dm name cb) name = Set_add (subscribers dm name) cb"
    by (rule subscribers_on)
next
  assume q: "\<forall>h \<in> set (subscribers dm name). cb_run h args = None"
  then show "fst (invoke dm name args) = None"
    by (simp add: invoke_eq first_throw_none)
  from q show "deliveries dm (snd (invoke dm name args)) = map (\<lambda>h. (h, args)) (subscribers dm name)"
    by (simp add: invoke_deliveries until_throw_all)
next
  assume a: "subscribers dm name = before @ h # after
        \<and> (\<forall>b \<in> set before. cb_run b args = None) \<and> cb_run h args = Some e"
  then have u: "until_throw (subscribers dm name) args = before @ [h]"
    and f: "first_throw (subscribers dm name) args = Some e"
    using until_throw_split [of before args h e after] by simp_all
  from f show "fst (invoke dm name args) = Some e" by (simp add: invoke_eq)
  from u show "deliveries dm (snd (invoke dm name args)) = map (\<lambda>h. (h, args)) (before @ [h])"
    by (simp add: invoke_deliveries)
qed

theorem invoke_delivers_until_throw_witness:
  "well_formed fresh_manager
   \<and> subscribers (on fresh_manager ''ready'' quiet_handler) ''ready'' = [quiet_handler]
   \<and> subscribers two_quiet_handlers ''ready'' = [quiet_handler, second_quiet_handler]
   \<and> cb_run quiet_handler [This] = None \<and> cb_run second_quiet_handler [This] = None
   \<and> fst (invoke two_quiet_handlers ''ready'' [This]) = None
   \<and> deliveries two_quiet_handlers (snd (invoke two_quiet_handlers ''ready'' [This]))
       = [(quiet_handler, [This]), (second_quiet_handler, [This])]
   \<and> subscribers two_handlers ''ready'' = [] @ failing_handler # [quiet_handler]
   \<and> cb_run failing_handler [This] = Some (Error ''handler failed'')
   \<and> fst (invoke two_handlers ''ready'' [This]) = Some (Error ''handler failed'')
   \<and> deliveries two_handlers (snd (invoke two_handlers ''ready'' [This])) = [(failing_handler, [This])]"
proof -
  have q: "cb_run quiet_handler [This] = None" "cb_run second_quiet_handler [This] = None"
    by (simp_all add: quiet_handler_def second_quiet_handler_def)
  have f: "cb_run failing_handler [This] = Some (Error ''handler failed'')"
    by (simp add: failing_handler_def)
  have s1: "subscribers (on fresh_manager ''ready'' quiet_handler) ''ready'' = [quiet_handler]"
    using invoke_delivers_until_throw [of fresh_manager "''ready''" quiet_handler]
    by (simp add: well_formed_fresh subscribers_fresh Set_add_def)
  have s2: "fst (invoke two_quiet_handlers ''ready'' [This]) = None
      \<and> deliveries two_quiet_handlers (snd (invoke two_quiet_handlers ''ready'' [This]))
          = [(quiet_handler, [This]), (second_quiet_handler, [This])]"
    using invoke_delivers_until_throw [of two_quiet_handlers "''ready''" _ "[This]"] q
    by (simp add: subscribers_two_quiet_handlers)
  have s3: "fst (invoke two_handlers ''ready'' [This]) = Some (Error ''handler failed'')
      \<and> deliveries two_handlers (snd (invoke two_handlers ''ready'' [This])) = [(failing_handler, [This])]"
    using invoke_delivers_until_throw [of two_handlers "''ready''" _ "[This]" "[]" failing_handler
        "[quiet_handler]" "Error ''handler failed''"] f
    by (simp add: subscribers_two_handlers)
  show ?thesis
    using well_formed_fresh s1 s2 s3 q f subscribers_two_quiet_handlers subscribers_two_handlers
    by simp
qed

subsection \<open>Actions\<close>

lemma store_ready_manager: "store ready_manager = Obj example_store"
  by (simp add: ready_manager_def)

lemma addAction_first:
  "addAction ready_manager first_action failing_handler =
     (None, record_effect (StoreAddActions first_action)
        (ready_manager\<lparr>actions := AList.update ''export'' (first_action, failing_handler) (actions ready_manager)\<rparr>))"
  by (rule addAction_ok [where s = example_store]) (simp_all add: first_action_def store_ready_manager)

lemma store_registered_manager: "store registered_manager = Obj example_store"
  by (simp add: registered_manager_def store_ready_manager)

lemma getAction_registered_manager: "getAction registered_manager ''export'' = Some failing_handler"
  by (simp add: registered_manager_def getAction_after_addAction first_action_def)

text \<open>
  C3, counterexample. The id \<^verbatim>\<open>"export"\<close> is registered with a callback; a second
  \<^verbatim>\<open>addAction\<close> with the same id and another callback returns without an exception, and
  \<^verbatim>\<open>getAction\<close> then answers with the second callback.
\<close>

theorem addAction_duplicate_id_overwrites:
  "getAction registered_manager ''export'' = Some failing_handler
   \<and> action_id second_action = Some ''export''
   \<and> fst (addAction registered_manager second_action quiet_handler) = None
   \<and> getAction (snd (addAction registered_manager second_action quiet_handler)) ''export'' = Some quiet_handler
   \<and> quiet_handler \<noteq> failing_handler"
proof -
  have k: "action_id second_action = Some ''export''" "''export'' \<noteq> []"
    by (simp_all add: second_action_def)
  have r: "fst (addAction registered_manager second_action quiet_handler) = None"
    by (simp add: addAction_ok [OF k store_registered_manager])
  have g: "getAction (snd (addAction registered_manager second_action quiet_handler)) ''export'' = Some quiet_handler"
    by (rule getAction_after_addAction [OF k])
  have ne: "quiet_handler \<noteq> failing_handler"
    by (simp add: quiet_handler_def failing_handler_def)
  show ?thesis
    using getAction_registered_manager k(1) r g ne by blast
qed

text \<open>
  C3, amended. For an id that the registry already holds, \<^verbatim>\<open>addAction\<close> with an action
  bearing that id does not fail on a Data Manager whose store is in place: it replaces the
  entry of the id, at its place in the registry, by the new action and callback (the last
  write wins).
\<close>

theorem addAction_same_id_replaces:
  "map_of (actions dm) k \<noteq> None \<Longrightarrow> action_id a = Some k \<Longrightarrow> k \<noteq> [] \<Longrightarrow> store dm = Obj s \<Longrightarrow>
   fst (addAction dm a cb) = None
   \<and> map_of (actions (snd (addAction dm a cb))) k = Some (a, cb)
   \<and> getAction (snd (addAction dm a cb)) k = Some cb
   \<and> map fst (actions (snd (addAction dm a cb))) = map fst (actions dm)"
proof -
  assume reg: "map_of (actions dm) k \<noteq> None" and k: "action_id a = Some k" "k \<noteq> []"
    and s: "store dm = Obj s"
  from reg have "k \<in> set (map fst (actions dm))"
    by (simp add: map_of_eq_None_iff)
  then have "map fst (AList.update k (a, cb) (actions dm)) = map fst (actions dm)"
    by (simp add: update_keys)
  moreover have "fst (addAction dm a cb) = None"
    by (simp add: addAction_ok [OF k s])
  moreover have "actions (snd (addAction dm a cb)) = AList.update k (a, cb) (actions dm)"
    by (rule addAction_stored [OF k])
  ultimately show ?thesis
    by (simp add: getAction_def update_conv')
qed

theorem addAction_same_id_replaces_witness:
  "map_of (actions registered_manager) ''export'' \<noteq> None
   \<and> action_id second_action = Some ''export''
   \<and> store registered_manager = Obj example_store
   \<and> fst (addAction registered_manager second_action quiet_handler) = None
   \<and> map_of (actions (snd (addAction registered_manager second_action quiet_handler))) ''export''
       = Some (second_action, quiet_handler)
   \<and> getAction (snd (addAction registered_manager second_action quiet_handler)) ''export'' = Some quiet_handler
   \<and> map fst (actions (snd (addAction registered_manager second_action quiet_handler)))
       = map fst (actions registered_manager)"
proof -
  have reg: "map_of (actions registered_manager) ''export'' \<noteq> None"
    by (simp add: registered_manager_def addAction_first update_conv')
  have k: "action_id second_action = Some ''export''" "''export'' \<noteq> []"
    by (simp_all add: second_action_def)
  show ?thesis
    using addAction_same_id_replaces [OF reg k store_registered_manager, of quiet_handler] reg k
    by (simp add: store_registered_manager)
qed

text \<open>
  C8. \<^verbatim>\<open>addAction\<close> throws \<^verbatim>\<open>Error("Action must provide a unique ID")\<close> when the action has
  no id (\<^verbatim>\<open>undefined\<close>, or the empty string), and leaves the Data Manager as it was. After
  an \<^verbatim>\<open>addAction\<close> with id \<open>x\<close> that returned, \<^verbatim>\<open>getAction(x)\<close> is the callback given.
\<close>

theorem addAction_requires_id:
  "(action_id a = None \<or> action_id a = Some [] \<longrightarrow>
      addAction dm a cb = (Some (Error ''Action must provide a unique ID''), dm))
   \<and> (action_id a = Some x \<and> fst (addAction dm a cb) = None \<longrightarrow>
      getAction (snd (addAction dm a cb)) x = Some cb)"
proof (intro conjI impI)
  assume "action_id a = None \<or> action_id a = Some []"
  then have "\<not> truthy_id (action_id a)" by (auto simp: truthy_id_def)
  then show "addAction dm a cb = (Some (Error ''Action must provide a unique ID''), dm)"
    by (rule addAction_no_id)
next
  assume ok: "action_id a = Some x \<and> fst (addAction dm a cb) = None"
  then obtain k where "action_id a = Some k" "k \<noteq> []"
    using addAction_success [of dm a cb] by auto
  with ok show "getAction (snd (addAction dm a cb)) x = Some cb"
    by (simp add: getAction_after_addAction)
qed

theorem addAction_requires_id_witness:
  "action_id anonymous_action = None
   \<and> addAction ready_manager anonymous_action quiet_handler
       = (Some (Error ''Action must provide a unique ID''), ready_manager)
   \<and> action_id first_action = Some ''export''
   \<and> fst (addAction ready_manager first_action failing_handler) = None
   \<and> getAction (snd (addAction ready_manager first_action failing_handler)) ''export'' = Some failing_handler"
proof -
  have a: "action_id anonymous_action = None"
    by (simp add: anonymous_action_def)
  have k: "action_id first_action = Some ''export''"
    by (simp add: first_action_def)
  have r: "fst (addAction ready_manager first_action failing_handler) = None"
    by (simp add: addAction_first)
  show ?thesis
    using addAction_requires_id [of anonymous_action ready_manager quiet_handler "''export''"]
      addAction_requires_id [of first_action ready_manager failing_handler "''export''"] a k r
    by blast
qed

subsection \<open>Instruments\<close>

lemma registerInstrument_native:
  "native name \<noteq> None \<Longrightarrow>
   registerInstrument native dm name i =
     (None, record_effect (ConsoleWarn (''Can't override native instrument '' @ name)) dm)"
  by (simp add: registerInstrument_def)

lemma registerInstrument_new_trace:
  "native name = None \<Longrightarrow>
   trace (snd (registerInstrument native dm name i)) =
     trace dm @ Initialized i \<lparr>collab_store = store dm, collab_observer = Observer, collab_inject = Inject\<rparr>
       # (case init_run i \<lparr>collab_store = store dm, collab_observer = Observer, collab_inject = Inject\<rparr> of
            Inl e \<Rightarrow> []
          | Inr instance' \<Rightarrow> if truthy (store dm) then [StoreUpdateInstruments] else [])"
  by (cases "store dm") (simp_all add: registerInstrument_def Let_def split: sum.splits)

lemma registerInstrument_new_stored:
  "native name = None \<Longrightarrow>
   init_run i \<lparr>collab_store = store dm, collab_observer = Observer, collab_inject = Inject\<rparr> = Inr instance' \<Longrightarrow>
   instruments (snd (registerInstrument native dm name i)) = AList.update name instance' (instruments dm)"
  by (cases "store dm") (simp_all add: registerInstrument_def Let_def)

lemma registerInstrument_new_result:
  "native name = None \<Longrightarrow>
   init_run i \<lparr>collab_store = store dm, collab_observer = Observer, collab_inject = Inject\<rparr> = Inr instance' \<Longrightarrow>
   store dm = Obj s \<Longrightarrow> fst (registerInstrument native dm name i) = None"
  by (simp add: registerInstrument_def Let_def)

text \<open>
  C9. For a name that the table of built-in instruments holds, \<^verbatim>\<open>registerInstrument\<close>
  writes a warning to the console and returns: the registry is unchanged, the initializer
  has not been called, no exception leaves. For any other name the initializer is called
  exactly once, with the store of the Data Manager and the two binding helpers, and the
  instance it returns is stored under the name.
\<close>

theorem registerInstrument_reserved_or_new:
  "(native name \<noteq> None \<longrightarrow>
      fst (registerInstrument native dm name i) = None
      \<and> instruments (snd (registerInstrument native dm name i)) = instruments dm
      \<and> effects_since dm (snd (registerInstrument native dm name i))
          = [ConsoleWarn (''Can't override native instrument '' @ name)]
      \<and> List.map_filter initialized (effects_since dm (snd (registerInstrument native dm name i))) = [])
   \<and> (native name = None \<longrightarrow>
      List.map_filter initialized (effects_since dm (snd (registerInstrument native dm name i)))
        = [(i, \<lparr>collab_store = store dm, collab_observer = Observer, collab_inject = Inject\<rparr>)]
      \<and> (\<forall>instance'.
            init_run i \<lparr>collab_store = store dm, collab_observer = Observer, collab_inject = Inject\<rparr> = Inr instance' \<longrightarrow>
            instruments (snd (registerInstrument native dm name i)) = AList.update name instance' (instruments dm)
            \<and> map_of (instruments (snd (registerInstrument native dm name i))) name = Some instance'))"
proof (intro conjI impI allI)
  assume n: "native name \<noteq> None"
  show "fst (registerInstrument native dm name i) = None"
    and "instruments (snd (registerInstrument native dm name i)) = instruments dm"
    and "effects_since dm (snd (registerInstrument native dm name i))
          = [ConsoleWarn (''Can't override native instrument '' @ name)]"
    and "List.map_filter initialized (effects_since dm (snd (registerInstrument native dm name i))) = []"
    by (simp_all add: registerInstrument_native [of native name, OF n])
next
  assume n: "native name = None"
  show "List.map_filter initialized (effects_since dm (snd (registerInstrument native dm name i)))
        = [(i, \<lparr>collab_store = store dm, collab_observer = Observer, collab_inject = Inject\<rparr>)]"
    by (simp add: registerInstrument_new_trace [of native name, OF n] split: sum.splits)
  fix instance'
  assume r: "init_run i \<lparr>collab_store = store dm, collab_observer = Observer, collab_inject = Inject\<rparr> = Inr instance'"
  show "instruments (snd (registerInstrument native dm name i)) = AList.update name instance' (instruments dm)"
    by (rule registerInstrument_new_stored [of native name, OF n r])
  then show "map_of (instruments (snd (registerInstrument native dm name i))) name = Some instance'"
    by (simp add: update_conv')
qed

theorem registerInstrument_reserved_or_new_witness:
  "example_native ''columns'' \<noteq> None
   \<and> fst (registerInstrument example_native ready_manager ''columns'' example_initializer) = None
   \<and> instruments (snd (registerInstrument example_native ready_manager ''columns'' example_initializer))
       = instruments ready_manager
   \<and> List.map_filter initialized
       (effects_since ready_manager (snd (registerInstrument example_native ready_manager ''columns'' example_initializer))) = []
   \<and> example_native ''histogram'' = None
   \<and> init_run example_initializer \<lparr>collab_store = store ready_manager, collab_observer = Observer, collab_inject = Inject\<rparr>
       = Inr (Instrument 5)
   \<and> List.map_filter initialized
       (effects_since ready_manager (snd (registerInstrument example_native ready_manager ''histogram'' example_initializer)))
       = [(example_initializer, \<lparr>collab_store = store ready_manager, collab_observer = Observer, collab_inject = Inject\<rparr>)]
   \<and> map_of (instruments (snd (registerInstrument example_native ready_manager ''histogram'' example_initializer))) ''histogram''
       = Some (Instrument 5)"
  using registerInstrument_reserved_or_new [of example_native "''columns''" ready_manager example_initializer]
    registerInstrument_reserved_or_new [of example_native "''histogram''" ready_manager example_initializer]
  by (simp add: example_native_def example_initializer_def update_conv')


subsection \<open>Mode changes\<close>

lemma mode_ready_manager: "mode ready_manager = ''explorer''"
  by (simp add: ready_manager_def fresh_manager_def new_DataManager_def)

lemma store_fresh_manager: "store fresh_manager = Null"
  by (simp add: fresh_manager_def new_DataManager_def)

lemma mode_fresh_manager: "mode fresh_manager = ''explorer''"
  by (simp add: fresh_manager_def new_DataManager_def)

text \<open>
  C5, counterexample. A Data Manager as the constructor leaves it has no store yet
  (\<^verbatim>\<open>createApp\<close> is pending) and is in mode \<^verbatim>\<open>explorer\<close>. \<^verbatim>\<open>setMode("labelstream")\<close> assigns
  the new mode, then \<^verbatim>\<open>this.store.setMode\<close> raises a TypeError: the mode has changed and
  no \<^verbatim>\<open>modeChanged\<close> event is fired.
\<close>

theorem setMode_before_store_fires_nothing:
  "store fresh_manager = Null
   \<and> mode fresh_manager = ''explorer''
   \<and> fst (setMode fresh_manager ''labelstream'') = Some TypeError
   \<and> mode (snd (setMode fresh_manager ''labelstream'')) = ''labelstream''
   \<and> events_fired fresh_manager (snd (setMode fresh_manager ''labelstream'')) = []"
proof -
  have n: "\<not> truthy (store fresh_manager)"
    by (simp add: store_fresh_manager)
  have e: "setMode fresh_manager ''labelstream'' = (Some TypeError, fresh_manager\<lparr>mode := ''labelstream''\<rparr>)"
    using n by (rule setMode_null_store)
  show ?thesis
    by (simp add: e store_fresh_manager mode_fresh_manager events_fired_def effects_since_def)
qed

text \<open>
  C5, amended. On a Data Manager whose store is in place, \<^verbatim>\<open>setMode(mode)\<close> leaves \<open>mode\<close> as the
  stored mode. When \<open>mode\<close> was the stored mode already, nothing changes in it and no event
  is fired; when it differs, exactly one event is fired, \<^verbatim>\<open>modeChanged\<close> with the new mode
  as its argument, and it goes to the handlers of \<^verbatim>\<open>modeChanged\<close>.
\<close>

theorem setMode_fires_on_change:
  "store dm = Obj s \<Longrightarrow>
   fst (setMode dm m) = None
   \<and> mode (snd (setMode dm m)) = m
   \<and> (m = mode dm \<longrightarrow>
        mode (snd (setMode dm m)) = mode dm
        \<and> events_fired dm (snd (setMode dm m)) = []
        \<and> deliveries dm (snd (setMode dm m)) = [])
   \<and> (m \<noteq> mode dm \<longrightarrow>
        events_fired dm (snd (setMode dm m)) = [(''modeChanged'', [Str m])]
        \<and> deliveries dm (snd (setMode dm m))
            = map (\<lambda>h. (h, [Str m])) (until_throw (subscribers dm ''modeChanged'') [Str m]))"
proof -
  assume s: "store dm = Obj s"
  have r: "fst (setMode dm m) = None"
    by (simp add: setMode_ok [OF s])
  have same: "effects_since dm (snd (setMode dm m)) = [StoreSetMode m]" if "m = mode dm"
    using that setMode_trace [OF s, of m] by (intro effects_since_append) simp
  have changed: "effects_since dm (snd (setMode dm m)) =
      StoreSetMode m # Invoked ''modeChanged'' [Str m] #
        map (\<lambda>cb. Applied cb [Str m]) (until_throw (subscribers dm ''modeChanged'') [Str m])"
    if "m \<noteq> mode dm"
    using that setMode_trace [OF s, of m] by (intro effects_since_append) simp
  show ?thesis
  proof (cases "m = mode dm")
    case True
    with r same show ?thesis by (simp add: events_fired_def deliveries_def)
  next
    case False
    with r changed show ?thesis by (simp add: events_fired_def deliveries_def)
  qed
qed

theorem setMode_fires_on_change_witness:
  "store ready_manager = Obj example_store
   \<and> mode ready_manager = ''explorer''
   \<and> fst (setMode ready_manager ''explorer'') = None
   \<and> mode (snd (setMode ready_manager ''explorer'')) = ''explorer''
   \<and> events_fired ready_manager (snd (setMode ready_manager ''explorer'')) = []
   \<and> fst (setMode ready_manager ''labelstream'') = None
   \<and> mode (snd (setMode ready_manager ''labelstream'')) = ''labelstream''
   \<and> events_fired ready_manager (snd (setMode ready_manager ''labelstream''))
       = [(''modeChanged'', [Str ''labelstream''])]"
  using setMode_fires_on_change [OF store_ready_manager, of "''explorer''"]
    setMode_fires_on_change [OF store_ready_manager, of "''labelstream''"]
  by (simp add: store_ready_manager mode_ready_manager)

subsection \<open>The editor\<close>

lemma startLabeling_same:
  "store dm = Obj s \<Longrightarrow> taskStore_selected s = Obj t \<Longrightarrow> lsf dm = Obj w \<Longrightarrow>
   opt_task_id (lsf_task w) = Some (task_id t) \<Longrightarrow> startLabeling dm = (None, dm)"
  by (cases "lsf_task w") (simp_all add: startLabeling_def Let_def lsf_task_of_def opt_task_id_def)

lemma startLabeling_other:
  "store dm = Obj s \<Longrightarrow> taskStore_selected s = Obj t \<Longrightarrow> lsf dm = Obj w \<Longrightarrow>
   opt_task_id (lsf_task w) \<noteq> Some (task_id t) \<Longrightarrow> mode dm \<noteq> ''labelstream'' \<Longrightarrow>
   startLabeling dm =
     (None, record_effect
        (LsfLoadTask (task_id t)
           (case annotationStore_selected s of
              Obj a \<Rightarrow> Some (annotation_id a)
            | _ \<Rightarrow> opt_annotation_id (lastAnnotation t))) dm)"
  by (cases "annotationStore_selected s")
    (simp_all add: startLabeling_def Let_def lsf_task_of_def opt_task_id_def opt_annotation_id_def)

lemma startLabeling_stream:
  "store dm = Obj s \<Longrightarrow> taskStore_selected s = Obj t \<Longrightarrow> mode dm = ''labelstream'' \<Longrightarrow>
   startLabeling dm = (None, dm)"
  by (simp add: startLabeling_def Let_def)

text \<open>With no task selected, the branch that loads a task reads a property of nothing.\<close>

lemma startLabeling_no_task:
  "store dm = Obj s \<Longrightarrow> \<not> truthy (taskStore_selected s) \<Longrightarrow> lsf dm = Obj w \<Longrightarrow>
   mode dm \<noteq> ''labelstream'' \<Longrightarrow> truthy (lsf_task w) \<or> annotationStore_selected s \<noteq> Undefined \<Longrightarrow>
   startLabeling dm = (Some TypeError, dm)"
  by (cases "taskStore_selected s"; cases "lsf_task w")
    (auto simp: startLabeling_def Let_def lsf_task_of_def opt_task_id_def)

text \<open>
  A task is selected and the editor exists. When the task that the editor has loaded
  is the selected one (the same id), \<^verbatim>\<open>startLabeling\<close> changes nothing and calls nothing.
  Otherwise the editor holds a different task, or none, so the test
  \<^verbatim>\<open>this.lsf.task?.id !== task?.id || annotation !== undefined\<close> holds; when the mode is
  not \<^verbatim>\<open>labelstream\<close>, \<^verbatim>\<open>startLabeling\<close> then makes exactly one call
  \<^verbatim>\<open>loadTask(taskId, annotationId)\<close> on the editor, with the id of the selected task, and
  with the id of the selected annotation if one is selected, else the id of the task's
  last annotation (\<^verbatim>\<open>undefined\<close> when it has none).
\<close>

lemma startLabeling_loads_selected_task:
  "store dm = Obj s \<Longrightarrow> taskStore_selected s = Obj t \<Longrightarrow> lsf dm = Obj w \<Longrightarrow>
   (opt_task_id (lsf_task w) = Some (task_id t) \<longrightarrow> startLabeling dm = (None, dm))
   \<and> (mode dm \<noteq> ''labelstream'' \<and> opt_task_id (lsf_task w) \<noteq> Some (task_id t) \<longrightarrow>
        fst (startLabeling dm) = None
        \<and> effects_since dm (snd (startLabeling dm)) =
            [LsfLoadTask (task_id t)
               (case annotationStore_selected s of
                  Obj a \<Rightarrow> Some (annotation_id a)
                | _ \<Rightarrow> opt_annotation_id (lastAnnotation t))]
        \<and> snd (startLabeling dm) = dm\<lparr>trace := trace (snd (startLabeling dm))\<rparr>)"
proof (intro conjI impI)
  assume a: "store dm = Obj s" "taskStore_selected s = Obj t" "lsf dm = Obj w"
  {
    assume "opt_task_id (lsf_task w) = Some (task_id t)"
    with a show "startLabeling dm = (None, dm)" by (rule startLabeling_same)
  }
  assume b: "mode dm \<noteq> ''labelstream'' \<and> opt_task_id (lsf_task w) \<noteq> Some (task_id t)"
  then have m: "mode dm \<noteq> ''labelstream''"
    and d: "opt_task_id (lsf_task w) \<noteq> Some (task_id t)"
    by blast+
  have eq: "startLabeling dm =
     (None, record_effect
        (LsfLoadTask (task_id t)
           (case annotationStore_selected s of
              Obj a \<Rightarrow> Some (annotation_id a)
            | _ \<Rightarrow> opt_annotation_id (lastAnnotation t))) dm)"
    by (rule startLabeling_other [OF a d m])
  show "fst (startLabeling dm) = None" by (simp add: eq)
  show "effects_since dm (snd (startLabeling dm)) =
            [LsfLoadTask (task_id t)
               (case annotationStore_selected s of
                  Obj a \<Rightarrow> Some (annotation_id a)
                | _ \<Rightarrow> opt_annotation_id (lastAnnotation t))]"
    by (simp add: eq effects_since_def)
  show "snd (startLabeling dm) = dm\<lparr>trace := trace (snd (startLabeling dm))\<rparr>"
    by (simp add: eq record_effect_def)
qed

lemma startLabeling_loads_selected_task_example:
  "store editor_same_task = Obj example_store
   \<and> taskStore_selected example_store = Obj example_task
   \<and> lsf editor_same_task = Obj \<lparr>lsf_task = Obj example_task\<rparr>
   \<and> opt_task_id (lsf_task \<lparr>lsf_task = Obj example_task\<rparr>) = Some (task_id example_task)
   \<and> startLabeling editor_same_task = (None, editor_same_task)
   \<and> store editor_other_task = Obj example_store
   \<and> lsf editor_other_task = Obj \<lparr>lsf_task = Obj \<lparr>task_id = 3, lastAnnotation = Undefined\<rparr>\<rparr>
   \<and> mode editor_other_task \<noteq> ''labelstream''
   \<and> opt_task_id (lsf_task \<lparr>lsf_task = Obj \<lparr>task_id = 3, lastAnnotation = Undefined\<rparr>\<rparr>)
       \<noteq> Some (task_id example_task)
   \<and> fst (startLabeling editor_other_task) = None
   \<and> effects_since editor_other_task (snd (startLabeling editor_other_task)) = [LsfLoadTask 7 (Some 70)]
   \<and> store editor_other_task_annotated = Obj annotated_store
   \<and> annotationStore_selected annotated_store = Obj \<lparr>annotation_id = 99\<rparr>
   \<and> mode editor_other_task_annotated \<noteq> ''labelstream''
   \<and> effects_since editor_other_task_annotated (snd (startLabeling editor_other_task_annotated))
       = [LsfLoadTask 7 (Some 99)]"
proof -
  have s1: "store editor_same_task = Obj example_store"
    and l1: "lsf editor_same_task = Obj \<lparr>lsf_task = Obj example_task\<rparr>"
    by (simp_all add: editor_same_task_def store_ready_manager)
  have s2: "store editor_other_task = Obj example_store"
    and l2: "lsf editor_other_task = Obj \<lparr>lsf_task = Obj \<lparr>task_id = 3, lastAnnotation = Undefined\<rparr>\<rparr>"
    and m2: "mode editor_other_task \<noteq> ''labelstream''"
    by (simp_all add: editor_other_task_def store_ready_manager mode_ready_manager)
  have t: "taskStore_selected example_store = Obj example_task"
    by (simp add: example_store_def)
  have i1: "opt_task_id (lsf_task \<lparr>lsf_task = Obj example_task\<rparr>) = Some (task_id example_task)"
    by (simp add: opt_task_id_def)
  have i2: "opt_task_id (lsf_task \<lparr>lsf_task = Obj \<lparr>task_id = 3, lastAnnotation = Undefined\<rparr>\<rparr>)
       \<noteq> Some (task_id example_task)"
    by (simp add: opt_task_id_def example_task_def)
  have a: "annotationStore_selected example_store = Undefined"
    by (simp add: example_store_def)
  have c1: "startLabeling editor_same_task = (None, editor_same_task)"
    using startLabeling_loads_selected_task [OF s1 t l1] i1 by blast
  have c2: "fst (startLabeling editor_other_task) = None
      \<and> effects_since editor_other_task (snd (startLabeling editor_other_task)) = [LsfLoadTask 7 (Some 70)]"
    using startLabeling_loads_selected_task [OF s2 t l2] i2 m2
    by (simp add: t a opt_task_id_def opt_annotation_id_def example_task_def)
  have s3: "store editor_other_task_annotated = Obj annotated_store"
    and l3: "lsf editor_other_task_annotated = Obj \<lparr>lsf_task = Obj \<lparr>task_id = 3, lastAnnotation = Undefined\<rparr>\<rparr>"
    and m3: "mode editor_other_task_annotated \<noteq> ''labelstream''"
    by (simp_all add: editor_other_task_annotated_def fresh_manager_def new_DataManager_def)
  have t3: "taskStore_selected annotated_store = Obj example_task"
    and a3: "annotationStore_selected annotated_store = Obj \<lparr>annotation_id = 99\<rparr>"
    by (simp_all add: annotated_store_def example_store_def)
  have c3: "effects_since editor_other_task_annotated (snd (startLabeling editor_other_task_annotated))
       = [LsfLoadTask 7 (Some 99)]"
    using startLabeling_loads_selected_task [OF s3 t3 l3] i2 m3
    by (simp add: a3 example_task_def)
  show ?thesis
    using s1 t l1 i1 c1 s2 l2 m2 i2 c2 s3 a3 m3 c3 by simp
qed


text \<open>
  C6. The mode is \<^verbatim>\<open>explorer\<close>, the editor exists and holds task 3, and no task is selected
  in the store. The editor's task differs from the selected one, so \<^verbatim>\<open>startLabeling\<close> is to
  issue one \<^verbatim>\<open>loadTask\<close>; the test of the source, written with \<^verbatim>\<open>task?.id\<close>, lets this state
  into the loading branch, where \<^verbatim>\<open>task.lastAnnotation\<close> is read without the guard: the call
  ends in a TypeError and the editor receives nothing. The same happens when the editor
  holds no task and only an annotation is selected (the case that the
  \<^verbatim>\<open>annotation !== undefined\<close> half of the test lets in); with nothing selected at all that
  editor is left alone.
\<close>

theorem startLabeling_throws_without_task:
  "mode editor_task_nothing_selected \<noteq> ''labelstream''
   \<and> truthy (lsf editor_task_nothing_selected)
   \<and> opt_task_id (lsf_task_of (lsf editor_task_nothing_selected)) = Some 3
   \<and> taskStore_selected unselected_store = Undefined
   \<and> startLabeling editor_task_nothing_selected = (Some TypeError, editor_task_nothing_selected)
   \<and> effects_since editor_task_nothing_selected (snd (startLabeling editor_task_nothing_selected)) = []
   \<and> startLabeling idle_editor_annotation_selected = (Some TypeError, idle_editor_annotation_selected)
   \<and> startLabeling idle_editor_nothing_selected = (None, idle_editor_nothing_selected)"
proof -
  have a: "mode editor_task_nothing_selected \<noteq> ''labelstream''"
    "truthy (lsf editor_task_nothing_selected)"
    "opt_task_id (lsf_task_of (lsf editor_task_nothing_selected)) = Some 3"
    "taskStore_selected unselected_store = Undefined"
    by (simp_all add: editor_task_nothing_selected_def mode_fresh_manager lsf_task_of_def
        opt_task_id_def unselected_store_def)
  have b: "startLabeling editor_task_nothing_selected = (Some TypeError, editor_task_nothing_selected)"
    by (simp add: startLabeling_def Let_def editor_task_nothing_selected_def mode_fresh_manager
        lsf_task_of_def opt_task_id_def unselected_store_def)
  have c: "startLabeling idle_editor_annotation_selected = (Some TypeError, idle_editor_annotation_selected)"
    by (simp add: startLabeling_def Let_def idle_editor_annotation_selected_def mode_fresh_manager
        lsf_task_of_def opt_task_id_def annotation_only_store_def unselected_store_def)
  have d: "startLabeling idle_editor_nothing_selected = (None, idle_editor_nothing_selected)"
    by (simp add: startLabeling_def Let_def idle_editor_nothing_selected_def mode_fresh_manager
        lsf_task_of_def opt_task_id_def unselected_store_def)
  show ?thesis
    using a c d by (simp add: b effects_since_def)
qed

theorem startLabeling_throws_without_task_witness:
  "fst (startLabeling editor_task_nothing_selected) = Some TypeError
   \<and> effects_since editor_task_nothing_selected (snd (startLabeling editor_task_nothing_selected)) = []"
  using startLabeling_throws_without_task by simp

subsection \<open>Tear-down, reload and the subscriptions\<close>

lemma map_filter_added_map [simp]:
  "List.map_filter added (map (\<lambda>(k, a, cb). StoreAddActions a) es) = map (\<lambda>(k, a, cb). a) es"
  by (induction es) (simp_all add: split_beta)

lemma map_filter_append: "List.map_filter f (xs @ ys) = List.map_filter f xs @ List.map_filter f ys"
  by (simp add: List.map_filter_def)

lemma reload_deliveries:
  "deliveries (snd (reload dm)) (initApp_resume (snd (reload dm)) s) =
     map (\<lambda>h. (h, [This])) (until_throw (subscribers dm ''ready'') [This])"
proof -
  have "subscribers (snd (reload dm)) = subscribers dm"
    by (rule subscribers_cong) simp_all
  then show ?thesis by (simp add: initApp_resume_deliveries)
qed

lemma reload_added:
  "well_formed dm \<Longrightarrow> store dm = Obj s \<Longrightarrow>
   List.map_filter added (effects_since dm (snd (reload dm))) = map (\<lambda>(k, a, cb). a) (actions dm)"
proof -
  assume wf: "well_formed dm" and s: "store dm = Obj s"
  have "effects_since dm (snd (reload dm)) =
      (if has_destroy s then [StoreDestroy] else []) @ UnmountComponentAtNode # CreateApp #
        map (\<lambda>(k, a, cb). StoreAddActions a) (actions dm)"
    using reload_registered [OF wf s]
    by (intro effects_since_append) (simp add: destroy_keep_trace s)
  then show ?thesis by (simp add: map_filter_append)
qed

lemma actions_fresh: "actions fresh_manager = []"
  by (simp add: fresh_manager_def new_DataManager_def)

lemma reload_two_handlers: "fst (reload two_handlers) = None"
  by (simp add: reload_def installActions_def two_handlers_def actions_fresh)

text \<open>
  C4, counterexample. Two handlers are registered for \<^verbatim>\<open>ready\<close>, the first of which
  throws. After \<^verbatim>\<open>reload()\<close> both are still registered, but when the next \<^verbatim>\<open>ready\<close> is
  fired the second one is not called.
\<close>

theorem reload_ready_skips_handler_after_throw:
  "quiet_handler \<in> set (subscribers two_handlers ''ready'')
   \<and> fst (reload two_handlers) = None
   \<and> quiet_handler \<in> set (subscribers (snd (reload two_handlers)) ''ready'')
   \<and> (quiet_handler, [This])
       \<notin> set (deliveries (snd (reload two_handlers)) (initApp_resume (snd (reload two_handlers)) example_store))"
proof -
  have "subscribers (snd (reload two_handlers)) = subscribers two_handlers"
    by (rule subscribers_cong) simp_all
  then show ?thesis
    by (simp add: reload_two_handlers reload_deliveries subscribers_two_handlers until_throw_Cons
        failing_handler_def quiet_handler_def)
qed

text \<open>
  What \<^verbatim>\<open>reload()\<close> does with the registered actions. \<^verbatim>\<open>installActions\<close> runs inside the
  call, before the promise of \<^verbatim>\<open>createApp\<close> is fulfilled: the store it calls is the one the
  Data Manager held on entry, which \<^verbatim>\<open>destroy\<close> has just torn down (\<open>reload_registered\<close>).
  When the new store arrives, no action is handed to it; and while there is no store
  yet, re-adding the first registered action raises a TypeError.
\<close>

lemma map_filter_added_applied [simp]:
  "List.map_filter added (map (\<lambda>cb. Applied cb args) hs) = []"
  by (induction hs) simp_all

lemma reload_new_store_receives_no_action:
  "List.map_filter added (effects_since (snd (reload dm)) (initApp_resume (snd (reload dm)) s')) = []"
proof -
  have "effects_since (snd (reload dm)) (initApp_resume (snd (reload dm)) s') =
      Invoked ''ready'' [This] #
        map (\<lambda>cb. Applied cb [This]) (until_throw (subscribers (snd (reload dm)\<lparr>store := Obj s'\<rparr>) ''ready'') [This])"
    by (intro effects_since_append) (simp add: initApp_resume_def invoke_trace)
  then show ?thesis by simp
qed

lemma reload_null_store_throws:
  "\<not> truthy (store dm) \<Longrightarrow> actions dm = (k, a, cb) # rest \<Longrightarrow> action_id a = Some k \<Longrightarrow> k \<noteq> [] \<Longrightarrow>
   fst (reload dm) = Some TypeError"
proof -
  assume n: "\<not> truthy (store dm)" and ac: "actions dm = (k, a, cb) # rest"
    and k: "action_id a = Some k" "k \<noteq> []"
  let ?d = "initApp (destroy dm False)"
  have "\<not> truthy (store ?d)" using n by simp
  then have "addAction ?d a cb =
      (Some TypeError, ?d\<lparr>actions := AList.update k (a, cb) (actions ?d)\<rparr>)"
    by (rule addAction_null_store [OF k])
  moreover have "actions ?d = (k, a, cb) # rest" using ac by simp
  ultimately have "forEach_addAction (actions ?d) ?d =
      (Some TypeError, ?d\<lparr>actions := AList.update k (a, cb) (actions ?d)\<rparr>)"
    by simp
  then show ?thesis
    by (simp add: reload_def installActions_def)
qed

text \<open>
  C4, amended. \<^verbatim>\<open>destroy(true)\<close> empties the subscription map (and every set it held), so
  no event name has a handler; \<^verbatim>\<open>destroy(false)\<close> leaves the map and its sets as they are.
  \<^verbatim>\<open>reload()\<close> calls \<^verbatim>\<open>destroy(false)\<close>, so the handlers registered before it are registered
  after it, and the next \<^verbatim>\<open>ready\<close> goes to the handlers of \<^verbatim>\<open>ready\<close> in registration order,
  up to and including the first one that throws (to all of them when none throws).
\<close>

theorem reload_keeps_subscriptions:
  "subscription_map (destroy dm True) name = None
   \<and> \<not> hasHandler (destroy dm True) name
   \<and> (well_formed dm \<and> (name, r) \<in> set (callbacks dm) \<longrightarrow> set_objects (destroy dm True) ! r = [])
   \<and> callbacks (destroy dm False) = callbacks dm
   \<and> set_objects (destroy dm False) = set_objects dm
   \<and> subscription_map (destroy dm False) = subscription_map dm
   \<and> installActions (initApp (destroy dm False)) = reload dm
   \<and> subscription_map (snd (reload dm)) = subscription_map dm
   \<and> subscribers (snd (reload dm)) name = subscribers dm name
   \<and> deliveries (snd (reload dm)) (initApp_resume (snd (reload dm)) s')
       = map (\<lambda>h. (h, [This])) (until_throw (subscribers dm ''ready'') [This])
   \<and> ((\<forall>h \<in> set (subscribers dm ''ready''). cb_run h [This] = None) \<longrightarrow>
        deliveries (snd (reload dm)) (initApp_resume (snd (reload dm)) s')
          = map (\<lambda>h. (h, [This])) (subscribers dm ''ready''))"
proof -
  have d1: "subscription_map (destroy dm True) name = None"
    by (simp add: subscription_map_def destroy_detach_callbacks)
  have d2: "\<not> hasHandler (destroy dm True) name"
    by (simp add: hasHandler_eq subscribers_unknown destroy_detach_callbacks)
  have d3: "well_formed dm \<and> (name, r) \<in> set (callbacks dm) \<longrightarrow> set_objects (destroy dm True) ! r = []"
    using destroy_detach_emptied [of dm name r] by blast
  have k: "subscription_map (destroy dm False) = subscription_map dm"
    by (rule subscription_map_cong) (simp_all add: destroy_keep)
  have r1: "subscription_map (snd (reload dm)) = subscription_map dm"
    by (rule subscription_map_cong) simp_all
  have r2: "subscribers (snd (reload dm)) = subscribers dm"
    by (rule subscribers_cong) simp_all
  have r3: "(\<forall>h \<in> set (subscribers dm ''ready''). cb_run h [This] = None) \<longrightarrow>
        deliveries (snd (reload dm)) (initApp_resume (snd (reload dm)) s')
          = map (\<lambda>h. (h, [This])) (subscribers dm ''ready'')"
    by (simp add: reload_deliveries until_throw_all)
  have k1: "callbacks (destroy dm False) = callbacks dm"
    and k2: "set_objects (destroy dm False) = set_objects dm"
    by (simp_all add: destroy_keep)
  have r0: "installActions (initApp (destroy dm False)) = reload dm"
    by (simp add: reload_def)
  have r2': "subscribers (snd (reload dm)) name = subscribers dm name"
    by (simp add: r2)
  show ?thesis
    by (intro conjI) (rule d1 d2 d3 k1 k2 k r0 r1 r2' reload_deliveries r3)+
qed

lemma well_formed_ready_manager: "well_formed ready_manager"
  by (simp add: ready_manager_def well_formed_initApp_resume well_formed_fresh)

lemma well_formed_registered_manager: "well_formed registered_manager"
  by (simp add: registered_manager_def well_formed_addAction well_formed_ready_manager)

lemma actions_ready_manager: "actions ready_manager = []"
  by (simp add: ready_manager_def actions_fresh)

lemma actions_registered_manager: "actions registered_manager = [(''export'', first_action, failing_handler)]"
  by (simp add: registered_manager_def addAction_first actions_ready_manager)

lemma subscribers_ready_manager: "subscribers ready_manager name = []"
  by (simp add: subscribers_unknown ready_manager_def fresh_manager_def)

lemma subscribers_registered_manager: "subscribers registered_manager name = []"
  by (simp add: subscribers_unknown registered_manager_def ready_manager_def fresh_manager_def)

lemma subscribers_subscribed_manager: "subscribers subscribed_manager ''ready'' = [quiet_handler]"
  by (simp add: subscribed_manager_def subscribers_on well_formed_registered_manager
      subscribers_registered_manager Set_add_def)

lemma callbacks_subscribed_manager: "callbacks subscribed_manager = [(''ready'', 1)]"
  by (simp add: subscribed_manager_def registered_manager_def ready_manager_def fresh_manager_def
      new_DataManager_def initApp_def initApp_resume_def invoke_eq getEventCallbacks_def new_Set_def
      record_effect_def)

theorem reload_keeps_subscriptions_witness:
  "well_formed subscribed_manager
   \<and> (''ready'', 1) \<in> set (callbacks subscribed_manager)
   \<and> subscribers subscribed_manager ''ready'' = [quiet_handler]
   \<and> cb_run quiet_handler [This] = None
   \<and> \<not> hasHandler (destroy subscribed_manager True) ''ready''
   \<and> set_objects (destroy subscribed_manager True) ! 1 = []
   \<and> subscribers (snd (reload subscribed_manager)) ''ready'' = [quiet_handler]
   \<and> deliveries (snd (reload subscribed_manager)) (initApp_resume (snd (reload subscribed_manager)) example_store)
       = [(quiet_handler, [This])]"
proof -
  have wf: "well_formed subscribed_manager"
    by (simp add: subscribed_manager_def well_formed_on well_formed_registered_manager)
  have q: "cb_run quiet_handler [This] = None"
    by (simp add: quiet_handler_def)
  have cb: "(''ready'', 1) \<in> set (callbacks subscribed_manager)"
    by (simp add: callbacks_subscribed_manager)
  show ?thesis
    using reload_keeps_subscriptions [of subscribed_manager "''ready''" 1 example_store]
      wf q cb
    by (simp add: subscribers_subscribed_manager until_throw_Cons)
qed

text \<open>The same manager, for the actions: \<^verbatim>\<open>reload()\<close> returns and the registry is as before.\<close>

lemma reload_subscribed_manager:
  "fst (reload subscribed_manager) = None
   \<and> actions (snd (reload subscribed_manager)) = [(''export'', first_action, failing_handler)]
   \<and> List.map_filter added (effects_since subscribed_manager (snd (reload subscribed_manager))) = [first_action]"
proof -
  have wf: "well_formed subscribed_manager"
    by (simp add: subscribed_manager_def well_formed_on well_formed_registered_manager)
  have st: "store subscribed_manager = Obj example_store"
    by (simp add: subscribed_manager_def store_registered_manager)
  have ac: "actions subscribed_manager = [(''export'', first_action, failing_handler)]"
    by (simp add: subscribed_manager_def actions_registered_manager)
  show ?thesis
    using reload_registered [OF wf st] reload_added [OF wf st] by (simp add: ac)
qed

subsection \<open>Event names without a registration\<close>

lemma unknown_fresh_ref:
  "well_formed dm \<Longrightarrow> map_of (callbacks dm) name = None \<Longrightarrow>
   fst (getEventCallbacks dm name) \<notin> snd ` set (callbacks dm)"
  by (auto simp: getEventCallbacks_unknown well_formed_def)

lemma off_unknown_keeps:
  "well_formed dm \<Longrightarrow> map_of (callbacks dm) name = None \<Longrightarrow>
   subscription_map (off dm name c) = subscription_map dm"
  by (rule subscription_map_extend [where g = "[[]]"]) (simp_all add: off_unknown)

text \<open>
  C10. Take any host program, run from the constructor, that never calls \<^verbatim>\<open>on\<close> with a
  given event name. Then the name has no handler, \<^verbatim>\<open>invoke\<close> for it calls no handler and
  its promise is fulfilled, and \<^verbatim>\<open>off(name, cb)\<close> and \<^verbatim>\<open>off(name)\<close> leave the subscription
  map, and the contents of every set in it, as they are (the model of \<^verbatim>\<open>off\<close> has no
  exception to throw). The set that \<^verbatim>\<open>getEventCallbacks\<close> returns for the name is new,
  empty, and not referred to by the map, also after \<^verbatim>\<open>off\<close>.
\<close>

theorem unknown_event_name_is_inert:
  "\<forall>c \<in> set cs. \<not> is_on name c \<Longrightarrow> dm = run native (new_DataManager config) cs \<Longrightarrow>
   \<not> hasHandler dm name
   \<and> fst (invoke dm name args) = None
   \<and> deliveries dm (snd (invoke dm name args)) = []
   \<and> callbacks (off dm name (Some cb)) = callbacks dm
   \<and> subscription_map (off dm name (Some cb)) = subscription_map dm
   \<and> callbacks (off dm name None) = callbacks dm
   \<and> subscription_map (off dm name None) = subscription_map dm
   \<and> map_of (callbacks dm) name = None
   \<and> set_objects (snd (getEventCallbacks dm name)) ! fst (getEventCallbacks dm name) = []
   \<and> fst (getEventCallbacks dm name) \<notin> snd ` set (callbacks dm)
   \<and> fst (getEventCallbacks dm name) \<notin> snd ` set (callbacks (off dm name (Some cb)))
   \<and> fst (getEventCallbacks dm name) \<notin> snd ` set (callbacks (off dm name None))"
proof -
  assume never: "\<forall>c \<in> set cs. \<not> is_on name c"
    and dm: "dm = run native (new_DataManager config) cs"
  have wf: "well_formed dm"
    unfolding dm by (rule well_formed_run) (rule well_formed_new)
  have unknown: "map_of (callbacks dm) name = None"
    unfolding dm using never by (rule unknown_run) simp
  have none: "subscribers dm name = []"
    using unknown by (rule subscribers_unknown)
  have h: "\<not> hasHandler dm name"
    by (simp add: hasHandler_eq none)
  have i: "fst (invoke dm name args) = None"
    by (simp add: invoke_eq none)
  have d: "deliveries dm (snd (invoke dm name args)) = []"
    by (simp add: invoke_deliveries none)
  have o: "subscription_map (off dm name (Some cb)) = subscription_map dm"
    "subscription_map (off dm name None) = subscription_map dm"
    using wf unknown by (rule off_unknown_keeps)+
  have g: "set_objects (snd (getEventCallbacks dm name)) ! fst (getEventCallbacks dm name) = []"
    by (simp add: getEventCallbacks_contents none)
  have f: "fst (getEventCallbacks dm name) \<notin> snd ` set (callbacks dm)"
    using wf unknown by (rule unknown_fresh_ref)
  show ?thesis
    using h i d o unknown g f by simp
qed

theorem unknown_event_name_is_inert_witness:
  "list_all (\<lambda>c. \<not> is_on ''modeChanged'' c) example_program
   \<and> \<not> hasHandler (run example_native fresh_manager example_program) ''modeChanged''
   \<and> fst (invoke (run example_native fresh_manager example_program) ''modeChanged'' [Str ''labelstream'']) = None
   \<and> deliveries (run example_native fresh_manager example_program)
       (snd (invoke (run example_native fresh_manager example_program) ''modeChanged'' [Str ''labelstream''])) = []
   \<and> callbacks (off (run example_native fresh_manager example_program) ''modeChanged'' (Some quiet_handler))
       = callbacks (run example_native fresh_manager example_program)
   \<and> subscription_map (off (run example_native fresh_manager example_program) ''modeChanged'' None)
       = subscription_map (run example_native fresh_manager example_program)"
proof -
  have never: "\<forall>c \<in> set example_program. \<not> is_on ''modeChanged'' c"
    by (simp add: example_program_def)
  have dm: "run example_native fresh_manager example_program
      = run example_native (new_DataManager \<lparr>config_mode = None, config_instruments = []\<rparr>) example_program"
    by (simp add: fresh_manager_def)
  show ?thesis
    using unknown_event_name_is_inert [OF never dm, of "[Str ''labelstream'']" quiet_handler] never
    by (simp add: list_all_iff)
qed

end
